theory Spec2Isabelle
  imports
    Main
    "HOL-Library.Sublist"
    "HOL-Library.Word"
    "HOL-Library.Char_ord"
    "HOL-Library.List_Lexorder"
    "HOL-Library.Multiset"
begin

unbundle bit_operations_syntax

section \<open>Values, exceptions and the file system\<close>

text \<open>
  The two tools of the registry, \<^verbatim>\<open>tools/validate.py\<close> and
  \<^verbatim>\<open>tools/generate_index.py\<close>, read a directory tree, parse YAML and JSON
  documents and inspect the parsed values with Python's dynamic operations. The parsed
  documents are values of one datatype. Floats and timestamps are outside the model.
  A mapping is an association list in insertion order; a lookup takes the first entry
  with the key.
\<close>

datatype pyval =
    PNone
  | PBool bool
  | PInt int
  | PStr string
  | PList "pyval list"
  | PDict "(pyval \<times> pyval) list"

text \<open>The exceptions the code can meet. Each stands for the Python class of its name.\<close>

datatype exn =
    TypeError
  | AttributeError
  | KeyError
  | NameError
  | FileNotFoundError
  | IsADirectoryError
  | NotADirectoryError
  | DecodeError
  | YAMLError
  | JSONDecodeError
  | EvaluatorError
  | ValidationError
  | SchemaError

text \<open>
  A file holds bytes; a directory holds the names that \<^verbatim>\<open>iterdir()\<close> reports, in
  the order it reports them. The file system answers for a path string, as the operating
  system does. Paths are written relative to \<^verbatim>\<open>repo_root\<close>, so that
  \<^verbatim>\<open>relative_to(self.repo_root)\<close> is the identity.
\<close>

datatype node = File string | Dir "string list"

type_synonym path = string
type_synonym filesys = "path \<Rightarrow> node option"

definition pjoin :: "path \<Rightarrow> string \<Rightarrow> path" where
  \<comment> \<open>pathlib's \<^verbatim>\<open>/\<close>: an absolute right operand replaces the left one\<close>
  "pjoin p q = (if prefix ''/'' q then q else p @ ''/'' @ q)"

definition child :: "path \<Rightarrow> string \<Rightarrow> path" where
  \<comment> \<open>the path \<^verbatim>\<open>iterdir()\<close> and \<^verbatim>\<open>glob()\<close> yield for the entry \<open>n\<close> of \<open>p\<close>\<close>
  "child p n = p @ ''/'' @ n"

definition exists :: "filesys \<Rightarrow> path \<Rightarrow> bool" where
  "exists fs p = (fs p \<noteq> None)"

definition is_dir :: "filesys \<Rightarrow> path \<Rightarrow> bool" where
  "is_dir fs p = (case fs p of Some (Dir ns) \<Rightarrow> True | _ \<Rightarrow> False)"

definition iterdir :: "filesys \<Rightarrow> path \<Rightarrow> exn + path list" where
  "iterdir fs p =
     (case fs p of
        None \<Rightarrow> Inl FileNotFoundError
      | Some (File b) \<Rightarrow> Inl NotADirectoryError
      | Some (Dir ns) \<Rightarrow> Inr ns)"

definition read_bytes :: "filesys \<Rightarrow> path \<Rightarrow> exn + string" where
  \<comment> \<open>\<^verbatim>\<open>open(path).read()\<close>\<close>
  "read_bytes fs p =
     (case fs p of
        None \<Rightarrow> Inl FileNotFoundError
      | Some (Dir ns) \<Rightarrow> Inl IsADirectoryError
      | Some (File b) \<Rightarrow> Inr b)"

definition visible_dir :: "filesys \<Rightarrow> path \<Rightarrow> string \<Rightarrow> bool" where
  \<comment> \<open>the negation of \<^verbatim>\<open>not d.is_dir() or d.name.startswith(".")\<close>, for the
      entry \<open>n\<close> of the directory \<open>p\<close>\<close>
  "visible_dir fs p n = (is_dir fs (child p n) \<and> \<not> prefix ''.'' n)"

definition subdirs :: "filesys \<Rightarrow> path \<Rightarrow> string list" where
  \<comment> \<open>the entries a traversal loop does not skip, for a path that is a directory\<close>
  "subdirs fs p = (case fs p of Some (Dir ns) \<Rightarrow> filter (visible_dir fs p) ns | _ \<Rightarrow> [])"

subsection \<open>Python's dynamic operations on parsed values\<close>

definition dict_get :: "(pyval \<times> pyval) list \<Rightarrow> string \<Rightarrow> pyval option" where
  "dict_get kvs k = map_of kvs (PStr k)"

definition py_in :: "string \<Rightarrow> pyval \<Rightarrow> exn + bool" where
  \<comment> \<open>\<^verbatim>\<open>k in v\<close> for a string \<open>k\<close>: key of a mapping, element of a sequence,
      substring of a string; \<^verbatim>\<open>TypeError\<close> for a value that is not a container\<close>
  "py_in k v =
     (case v of
        PDict kvs \<Rightarrow> Inr (dict_get kvs k \<noteq> None)
      | PList xs \<Rightarrow> Inr (PStr k \<in> set xs)
      | PStr s \<Rightarrow> Inr (sublist k s)
      | _ \<Rightarrow> Inl TypeError)"

definition py_get :: "pyval \<Rightarrow> string \<Rightarrow> pyval \<Rightarrow> exn + pyval" where
  \<comment> \<open>\<^verbatim>\<open>v.get(k, d)\<close>: only a mapping has the method\<close>
  "py_get v k d =
     (case v of
        PDict kvs \<Rightarrow> Inr (case dict_get kvs k of None \<Rightarrow> d | Some x \<Rightarrow> x)
      | _ \<Rightarrow> Inl AttributeError)"

definition py_item :: "pyval \<Rightarrow> string \<Rightarrow> exn + pyval" where
  \<comment> \<open>\<^verbatim>\<open>v[k]\<close> for a string \<open>k\<close>: \<^verbatim>\<open>KeyError\<close> on a mapping without the key;
      a sequence or a string wants an integer index, anything else is not subscriptable\<close>
  "py_item v k =
     (case v of
        PDict kvs \<Rightarrow> (case dict_get kvs k of None \<Rightarrow> Inl KeyError | Some x \<Rightarrow> Inr x)
      | _ \<Rightarrow> Inl TypeError)"

definition py_iter :: "pyval \<Rightarrow> exn + pyval list" where
  \<comment> \<open>the elements a \<^verbatim>\<open>for\<close> loop visits: the keys of a mapping, the characters
      of a string\<close>
  "py_iter v =
     (case v of
        PList xs \<Rightarrow> Inr xs
      | PDict kvs \<Rightarrow> Inr (map fst kvs)
      | PStr s \<Rightarrow> Inr (map (\<lambda>c. PStr [c]) s)
      | _ \<Rightarrow> Inl TypeError)"

definition path_div :: "path \<Rightarrow> pyval \<Rightarrow> exn + path" where
  \<comment> \<open>\<^verbatim>\<open>transform_dir / v\<close>: pathlib joins strings only\<close>
  "path_div p v = (case v of PStr s \<Rightarrow> Inr (pjoin p s) | _ \<Rightarrow> Inl TypeError)"

text \<open>A \<^verbatim>\<open>for\<close> loop whose body may raise: the first exception ends the loop.\<close>

fun for_each :: "('a \<Rightarrow> 's \<Rightarrow> exn + 's) \<Rightarrow> 'a list \<Rightarrow> 's \<Rightarrow> exn + 's" where
  "for_each body [] s = Inr s"
| "for_each body (x # xs) s =
     (case body x s of Inl e \<Rightarrow> Inl e | Inr s' \<Rightarrow> for_each body xs s')"


text \<open>Sequencing of steps that may raise.\<close>

definition and_then :: "exn + 'a \<Rightarrow> ('a \<Rightarrow> exn + 'b) \<Rightarrow> exn + 'b" where
  "and_then m f = (case m of Inl e \<Rightarrow> Inl e | Inr x \<Rightarrow> f x)"

text \<open>
  Python's \<^verbatim>\<open>==\<close> on parsed documents: a boolean equals the integer 0 or 1,
  sequences are compared in order, mappings by key set and value per key.
\<close>

function (sequential) py_eq :: "pyval \<Rightarrow> pyval \<Rightarrow> bool" where
  "py_eq PNone PNone = True"
| "py_eq (PBool a) (PBool b) = (a = b)"
| "py_eq (PBool a) (PInt i) = (i = (if a then 1 else 0))"
| "py_eq (PInt i) (PBool a) = (i = (if a then 1 else 0))"
| "py_eq (PInt i) (PInt j) = (i = j)"
| "py_eq (PStr s) (PStr t) = (s = t)"
| "py_eq (PList xs) (PList ys) =
     (length xs = length ys \<and> (\<forall>(x, y) \<in> set (zip xs ys). py_eq x y))"
| "py_eq (PDict kvs) (PDict kvs') =
     (length kvs = length kvs' \<and>
      (\<forall>(k, v) \<in> set kvs. \<exists>(k', v') \<in> set kvs'. py_eq k k' \<and> py_eq v v'))"
| "py_eq _ _ = False"
  by pat_completeness auto
termination
proof -
  have elem: "x \<in> set xs \<Longrightarrow> size x < Suc (size_list size xs)"
    for x :: pyval and xs
    by (induction xs) auto
  have key: "(k, v) \<in> set kvs \<Longrightarrow> size k < Suc (size_list (size_prod size size) kvs)"
    for k v :: pyval and kvs
    by (induction kvs) auto
  have val: "(k, v) \<in> set kvs \<Longrightarrow> size v < Suc (size_list (size_prod size size) kvs)"
    for k v :: pyval and kvs
    by (induction kvs) auto
  show ?thesis
    by (relation "measure (\<lambda>(a, b). size a)")
       (auto dest!: set_zip_leftD simp: elem key val)
qed

section \<open>SHA-256\<close>

text \<open>
  \<^verbatim>\<open>hashlib.sha256(b).hexdigest()\<close> is the digest of FIPS 180-4 over the bytes \<open>b\<close>, in
  lowercase hexadecimal: padding to a multiple of 64 bytes, one compression per block,
  eight 32-bit words of state.
\<close>

type_synonym w32 = "32 word"

definition K256 :: "w32 list" where
  \<comment> \<open>the first 32 bits of the fractional parts of the cube roots of the first 64 primes\<close>
  "K256 =
    [1116352408, 1899447441, 3049323471, 3921009573, 961987163, 1508970993,
     2453635748, 2870763221, 3624381080, 310598401, 607225278, 1426881987,
     1925078388, 2162078206, 2614888103, 3248222580, 3835390401, 4022224774,
     264347078, 604807628, 770255983, 1249150122, 1555081692, 1996064986,
     2554220882, 2821834349, 2952996808, 3210313671, 3336571891, 3584528711,
     113926993, 338241895, 666307205, 773529912, 1294757372, 1396182291,
     1695183700, 1986661051, 2177026350, 2456956037, 2730485921, 2820302411,
     3259730800, 3345764771, 3516065817, 3600352804, 4094571909, 275423344,
     430227734, 506948616, 659060556, 883997877, 958139571, 1322822218,
     1537002063, 1747873779, 1955562222, 2024104815, 2227730452, 2361852424,
     2428436474, 2756734187, 3204031479, 3329325298]"

definition H256 :: "w32 list" where
  \<comment> \<open>the same of the square roots of the first 8 primes\<close>
  "H256 = [1779033703, 3144134277, 1013904242, 2773480762,
           1359893119, 2600822924, 528734635, 1541459225]"

definition Ch :: "w32 \<Rightarrow> w32 \<Rightarrow> w32 \<Rightarrow> w32" where
  "Ch x y z = (x AND y) XOR (NOT x AND z)"
definition Maj :: "w32 \<Rightarrow> w32 \<Rightarrow> w32 \<Rightarrow> w32" where
  "Maj x y z = (x AND y) XOR (x AND z) XOR (y AND z)"
definition bsig0 :: "w32 \<Rightarrow> w32" where
  "bsig0 x = word_rotr 2 x XOR word_rotr 13 x XOR word_rotr 22 x"
definition bsig1 :: "w32 \<Rightarrow> w32" where
  "bsig1 x = word_rotr 6 x XOR word_rotr 11 x XOR word_rotr 25 x"
definition ssig0 :: "w32 \<Rightarrow> w32" where
  "ssig0 x = word_rotr 7 x XOR word_rotr 18 x XOR drop_bit 3 x"
definition ssig1 :: "w32 \<Rightarrow> w32" where
  "ssig1 x = word_rotr 17 x XOR word_rotr 19 x XOR drop_bit 10 x"

definition be_bytes :: "int \<Rightarrow> int list" where
  \<comment> \<open>the eight low bytes of \<open>v\<close>, most significant first\<close>
  "be_bytes v = map (\<lambda>i. (v div 256 ^ i) mod 256) [7, 6, 5, 4, 3, 2, 1, 0 :: nat]"

definition pad :: "int list \<Rightarrow> int list" where
  "pad m = m @ [128] @ replicate (nat ((55 - int (length m)) mod 64)) 0
             @ be_bytes (8 * int (length m))"

fun chunks :: "nat \<Rightarrow> nat \<Rightarrow> 'a list \<Rightarrow> 'a list list" where
  \<comment> \<open>the first \<open>k\<close> blocks of \<open>n\<close> elements\<close>
  "chunks n 0 xs = []"
| "chunks n (Suc k) xs = take n xs # chunks n k (drop n xs)"

definition word_of_bytes :: "int list \<Rightarrow> w32" where
  "word_of_bytes bs = of_int (foldl (\<lambda>a b. a * 256 + b) 0 bs)"

fun schedule :: "nat \<Rightarrow> w32 list \<Rightarrow> w32 list" where
  \<comment> \<open>extends the message schedule by \<open>k\<close> words\<close>
  "schedule 0 w = w"
| "schedule (Suc k) w =
     (let t = length w in
      schedule k (w @ [ssig1 (w ! (t - 2)) + w ! (t - 7) + ssig0 (w ! (t - 15)) + w ! (t - 16)]))"

fun round256 :: "w32 list \<Rightarrow> w32 \<times> w32 \<Rightarrow> w32 list" where
  "round256 [a, b, c, d, e, f, g, h] (k, w) =
     (let t1 = h + bsig1 e + Ch e f g + k + w;
          t2 = bsig0 a + Maj a b c
      in [t1 + t2, a, b, c, d + t1, e, f, g])"
| "round256 s kw = s"

definition compress :: "w32 list \<Rightarrow> int list \<Rightarrow> w32 list" where
  "compress hs block =
     (let w = schedule 48 (map word_of_bytes (chunks 4 16 block))
      in map2 (+) hs (foldl round256 hs (zip K256 w)))"

definition hex_digit :: "int \<Rightarrow> char" where
  "hex_digit n = ''0123456789abcdef'' ! nat (n mod 16)"

definition hex_word :: "w32 \<Rightarrow> string" where
  "hex_word w = map (\<lambda>i. hex_digit (uint w div 16 ^ i)) [7, 6, 5, 4, 3, 2, 1, 0 :: nat]"

definition sha256_hexdigest :: "string \<Rightarrow> string" where
  "sha256_hexdigest b =
     (let m = pad (map of_char b)
      in concat (map hex_word (foldl compress H256 (chunks 64 (length m div 64) m))))"

section \<open>The validator: \<^verbatim>\<open>tools/validate.py\<close>\<close>

text \<open>
  The libraries the validator calls are parameters: the YAML and JSON parsers (each takes
  the bytes of the file and includes the decoding of the text), the decoding of the
  expression file, the JSONata evaluator (\<^verbatim>\<open>jsonata.Jsonata(s).evaluate(x)\<close>), the
  meta-validator \<^verbatim>\<open>Draft7Validator.check_schema\<close> (the exception it raises, if any),
  and the two flags set by the optional imports.
\<close>

record env =
  yaml_safe_load :: "string \<Rightarrow> exn + pyval"
  json_load :: "string \<Rightarrow> exn + pyval"
  read_text :: "string \<Rightarrow> exn + string"
  jsonata_evaluate :: "string \<Rightarrow> pyval \<Rightarrow> exn + pyval"
  check_schema :: "pyval \<Rightarrow> exn option"
  JSONATA_AVAILABLE :: bool
  JSONSCHEMA_AVAILABLE :: bool

text \<open>
  One constructor for each message the validator appends to \<^verbatim>\<open>self.errors\<close> or
  \<^verbatim>\<open>self.warnings\<close>, with the values its f-string interpolates. The first two
  string arguments of a per-unit message are \<^verbatim>\<open>expected_id\<close> and
  \<^verbatim>\<open>expected_version\<close>.
\<close>

datatype diag =
    MissingRequiredDirectory path
  | TransformsDirectoryNotFound path
  | DuplicateTransform string string
  | MissingSpecJsonata string string
  | MissingSpecMeta string string
  | MissingTestsDirectory string string
  | InvalidYAML string string exn
  | MissingRequiredField string string string
  | IDMismatch string string pyval
  | VersionMismatch string string pyval
  | InvalidEngine string string
  | ChecksumMismatch string string pyval string
  | TestInputNotFound string string pyval
  | TestExpectedNotFound string string pyval
  | GoldenTestFailed string string
  | GoldenInput path
  | GoldenExpected pyval
  | GoldenActual pyval
  | GoldenTestError string string exn
  | SchemaNotObject path
  | InvalidJSONSchema path exn
  | ErrorValidatingSchema path exn
  | SchemasDirectoryNotFound path
  | MissingSchemaField path

record vstate =
  errors :: "diag list"
  warnings :: "diag list"

definition init_state :: vstate where
  \<comment> \<open>\<^verbatim>\<open>RegistryValidator.__init__\<close>\<close>
  "init_state = \<lparr>errors = [], warnings = []\<rparr>"

definition add_error :: "diag \<Rightarrow> vstate \<Rightarrow> vstate" where
  "add_error d st = st\<lparr>errors := errors st @ [d]\<rparr>"

definition add_warning :: "diag \<Rightarrow> vstate \<Rightarrow> vstate" where
  "add_warning d st = st\<lparr>warnings := warnings st @ [d]\<rparr>"

definition transforms_dir :: path where "transforms_dir = ''transforms''"
definition schemas_dir :: path where "schemas_dir = ''schemas''"

subsection \<open>\<^verbatim>\<open>check_structure\<close>\<close>

definition required_dirs :: "path list" where
  "required_dirs = [transforms_dir, schemas_dir, ''tools'', ''.github/workflows'']"

fun check_structure_loop :: "filesys \<Rightarrow> path list \<Rightarrow> vstate \<Rightarrow> bool \<times> vstate" where
  "check_structure_loop fs [] st = (True, st)"
| "check_structure_loop fs (d # ds) st =
     (if \<not> exists fs d then (False, add_error (MissingRequiredDirectory d) st)
      else check_structure_loop fs ds st)"

definition check_structure :: "filesys \<Rightarrow> vstate \<Rightarrow> bool \<times> vstate" where
  "check_structure fs st = check_structure_loop fs required_dirs st"

subsection \<open>\<^verbatim>\<open>_compute_sha256\<close> and \<^verbatim>\<open>_run_golden_test\<close>\<close>

definition compute_sha256 :: "filesys \<Rightarrow> path \<Rightarrow> exn + string" where
  "compute_sha256 fs file_path =
     and_then (read_bytes fs file_path) (\<lambda>b. Inr (sha256_hexdigest b))"

definition run_golden_test ::
  "env \<Rightarrow> filesys \<Rightarrow> path \<Rightarrow> path \<Rightarrow> path \<Rightarrow> string \<Rightarrow> string \<Rightarrow> vstate \<Rightarrow> bool \<times> vstate" where
  \<comment> \<open>the whole body is inside \<^verbatim>\<open>try\<close>; \<^verbatim>\<open>except Exception\<close> reports what it raised\<close>
  "run_golden_test env fs jsonata_file input_file expected_file transform_id version st =
     (case and_then (and_then (read_bytes fs jsonata_file) (read_text env)) (\<lambda>expression_str.
           and_then (and_then (read_bytes fs input_file) (json_load env)) (\<lambda>input_data.
           and_then (and_then (read_bytes fs expected_file) (json_load env)) (\<lambda>expected_output.
           and_then (jsonata_evaluate env expression_str input_data) (\<lambda>actual_output.
           Inr (expected_output, actual_output))))) of
        Inl e \<Rightarrow> (False, add_error (GoldenTestError transform_id version e) st)
      | Inr (expected_output, actual_output) \<Rightarrow>
          if \<not> py_eq actual_output expected_output
          then (False,
                add_error (GoldenActual actual_output)
                  (add_error (GoldenExpected expected_output)
                    (add_error (GoldenInput input_file)
                      (add_error (GoldenTestFailed transform_id version) st))))
          else (True, st))"

subsection \<open>\<^verbatim>\<open>_validate_transform\<close>\<close>

text \<open>
  The steps after the metadata is loaded thread the pair of the local \<^verbatim>\<open>success\<close>
  and the validator's state. None of them is inside a \<^verbatim>\<open>try\<close>.
\<close>

definition required_fields :: "string list" where
  "required_fields =
     [''id'', ''version'', ''engine'', ''from_schema'', ''to_schema'', ''tests'',
      ''checksum'', ''provenance'', ''status'']"

definition check_field ::
  "string \<Rightarrow> string \<Rightarrow> pyval \<Rightarrow> string \<Rightarrow> bool \<times> vstate \<Rightarrow> exn + bool \<times> vstate" where
  \<comment> \<open>\<^verbatim>\<open>if field not in meta\<close>\<close>
  "check_field expected_id expected_version meta field = (\<lambda>(success, st).
     and_then (py_in field meta) (\<lambda>present.
       Inr (if \<not> present
            then (False, add_error (MissingRequiredField expected_id expected_version field) st)
            else (success, st))))"

definition check_identity ::
  "string \<Rightarrow> string \<Rightarrow> pyval \<Rightarrow> bool \<times> vstate \<Rightarrow> exn + bool \<times> vstate" where
  \<comment> \<open>the id, the version and the engine, each read with \<^verbatim>\<open>meta.get\<close>\<close>
  "check_identity expected_id expected_version meta = (\<lambda>(success, st).
     and_then (py_get meta ''id'' PNone) (\<lambda>got_id.
     let (success, st) =
           (if \<not> py_eq got_id (PStr expected_id)
            then (False, add_error (IDMismatch expected_id expected_version got_id) st)
            else (success, st))
     in
     and_then (py_get meta ''version'' PNone) (\<lambda>got_version.
     let (success, st) =
           (if \<not> py_eq got_version (PStr expected_version)
            then (False, add_error (VersionMismatch expected_id expected_version got_version) st)
            else (success, st))
     in
     and_then (py_get meta ''engine'' PNone) (\<lambda>got_engine.
     Inr (if \<not> py_eq got_engine (PStr ''jsonata'')
          then (False, add_error (InvalidEngine expected_id expected_version) st)
          else (success, st))))))"

definition check_checksum ::
  "filesys \<Rightarrow> path \<Rightarrow> string \<Rightarrow> string \<Rightarrow> pyval \<Rightarrow> bool \<times> vstate \<Rightarrow> exn + bool \<times> vstate" where
  \<comment> \<open>\<^verbatim>\<open>if "checksum" in meta and "jsonata_sha256" in meta["checksum"]\<close>\<close>
  "check_checksum fs jsonata_file expected_id expected_version meta = (\<lambda>(success, st).
     and_then (py_in ''checksum'' meta) (\<lambda>has_block.
     if \<not> has_block then Inr (success, st)
     else
       and_then (py_item meta ''checksum'') (\<lambda>block.
       and_then (py_in ''jsonata_sha256'' block) (\<lambda>declared.
       if \<not> declared then Inr (success, st)
       else
         and_then (py_item block ''jsonata_sha256'') (\<lambda>expected_checksum.
         and_then (compute_sha256 fs jsonata_file) (\<lambda>actual_checksum.
         Inr (if \<not> py_eq expected_checksum (PStr actual_checksum)
              then (False,
                    add_error (ChecksumMismatch expected_id expected_version
                                 expected_checksum actual_checksum) st)
              else (success, st))))))))"

definition golden_test_step ::
  "env \<Rightarrow> filesys \<Rightarrow> path \<Rightarrow> path \<Rightarrow> string \<Rightarrow> string \<Rightarrow> pyval \<Rightarrow> bool \<times> vstate
     \<Rightarrow> exn + bool \<times> vstate" where
  \<comment> \<open>the body of \<^verbatim>\<open>for test_spec in meta["tests"]\<close>\<close>
  "golden_test_step env fs transform_dir jsonata_file expected_id expected_version test_spec =
     (\<lambda>(success, st).
     and_then (py_item test_spec ''input'') (\<lambda>input_name.
     and_then (path_div transform_dir input_name) (\<lambda>input_file.
     and_then (py_item test_spec ''expect'') (\<lambda>expect_name.
     and_then (path_div transform_dir expect_name) (\<lambda>expected_file.
     if \<not> exists fs input_file
     then Inr (False, add_error (TestInputNotFound expected_id expected_version input_name) st)
     else if \<not> exists fs expected_file
     then Inr (False, add_error (TestExpectedNotFound expected_id expected_version expect_name) st)
     else
       (case run_golden_test env fs jsonata_file input_file expected_file
               expected_id expected_version st of
          (passed, st') \<Rightarrow> Inr (if \<not> passed then False else success, st')))))))"

definition check_golden_tests ::
  "env \<Rightarrow> filesys \<Rightarrow> path \<Rightarrow> path \<Rightarrow> string \<Rightarrow> string \<Rightarrow> pyval \<Rightarrow> bool \<times> vstate
     \<Rightarrow> exn + bool \<times> vstate" where
  \<comment> \<open>\<^verbatim>\<open>if JSONATA_AVAILABLE and "tests" in meta\<close>: the membership test is not
      evaluated without the evaluator\<close>
  "check_golden_tests env fs transform_dir jsonata_file expected_id expected_version meta s =
     and_then (if JSONATA_AVAILABLE env then py_in ''tests'' meta else Inr False) (\<lambda>run.
     if \<not> run then Inr s
     else
       and_then (py_item meta ''tests'') (\<lambda>tests.
       and_then (py_iter tests) (\<lambda>specs.
       for_each (golden_test_step env fs transform_dir jsonata_file expected_id expected_version)
         specs s)))"

definition validate_transform ::
  "env \<Rightarrow> filesys \<Rightarrow> path \<Rightarrow> string \<Rightarrow> string \<Rightarrow> vstate \<Rightarrow> exn + bool \<times> vstate" where
  "validate_transform env fs transform_dir expected_id expected_version st =
     (let jsonata_file = pjoin transform_dir ''spec.jsonata'';
          meta_file = pjoin transform_dir ''spec.meta.yaml'';
          tests_dir = pjoin transform_dir ''tests''
      in
      if \<not> exists fs jsonata_file
      then Inr (False, add_error (MissingSpecJsonata expected_id expected_version) st)
      else if \<not> exists fs meta_file
      then Inr (False, add_error (MissingSpecMeta expected_id expected_version) st)
      else if \<not> exists fs tests_dir \<or> \<not> is_dir fs tests_dir
      then Inr (False, add_error (MissingTestsDirectory expected_id expected_version) st)
      else
        (case and_then (read_bytes fs meta_file) (yaml_safe_load env) of
           Inl e \<Rightarrow> Inr (False, add_error (InvalidYAML expected_id expected_version e) st)
         | Inr meta \<Rightarrow>
             and_then (for_each (check_field expected_id expected_version meta)
                         required_fields (True, st)) (\<lambda>s1.
             and_then (check_identity expected_id expected_version meta s1) (\<lambda>s2.
             and_then (check_checksum fs jsonata_file expected_id expected_version meta s2) (\<lambda>s3.
             check_golden_tests env fs transform_dir jsonata_file
               expected_id expected_version meta s3)))))"

subsection \<open>\<^verbatim>\<open>check_transforms\<close>\<close>

text \<open>The locals of the traversal, with the validator's state.\<close>

record tloop =
  transform_ids :: "(string \<times> string) set"
  transform_count :: nat
  success :: bool
  state :: vstate

definition version_step ::
  "env \<Rightarrow> filesys \<Rightarrow> string \<Rightarrow> string \<Rightarrow> string \<Rightarrow> tloop \<Rightarrow> exn + tloop" where
  \<comment> \<open>the body of the innermost loop, for a version directory that is not skipped\<close>
  "version_step env fs category name version s =
     (let transform_id = category @ ''/'' @ name;
          version_dir = child (child (child transforms_dir category) name) version
      in
      if (transform_id, version) \<in> transform_ids s
      then Inr (s\<lparr>success := False,
                  state := add_error (DuplicateTransform transform_id version) (state s)\<rparr>)
      else
        (let s1 = s\<lparr>transform_ids := insert (transform_id, version) (transform_ids s)\<rparr>
         in and_then (validate_transform env fs version_dir transform_id version (state s1))
              (\<lambda>(valid, st').
                 Inr (if \<not> valid then s1\<lparr>success := False, state := st'\<rparr>
                      else s1\<lparr>transform_count := transform_count s1 + 1, state := st'\<rparr>))))"

definition transform_step :: "env \<Rightarrow> filesys \<Rightarrow> string \<Rightarrow> string \<Rightarrow> tloop \<Rightarrow> exn + tloop" where
  "transform_step env fs category name s =
     for_each (version_step env fs category name)
       (subdirs fs (child (child transforms_dir category) name)) s"

definition category_step :: "env \<Rightarrow> filesys \<Rightarrow> string \<Rightarrow> tloop \<Rightarrow> exn + tloop" where
  "category_step env fs category s =
     for_each (transform_step env fs category) (subdirs fs (child transforms_dir category)) s"

definition check_transforms_loop :: "env \<Rightarrow> filesys \<Rightarrow> vstate \<Rightarrow> exn + tloop" where
  "check_transforms_loop env fs st =
     and_then (iterdir fs transforms_dir) (\<lambda>entries.
       for_each (category_step env fs) (filter (visible_dir fs transforms_dir) entries)
         \<lparr>transform_ids = {}, transform_count = 0, success = True, state = st\<rparr>)"

definition check_transforms :: "env \<Rightarrow> filesys \<Rightarrow> vstate \<Rightarrow> exn + bool \<times> vstate" where
  "check_transforms env fs st =
     (if \<not> exists fs transforms_dir
      then Inr (False, add_error (TransformsDirectoryNotFound transforms_dir) st)
      else and_then (check_transforms_loop env fs st) (\<lambda>s. Inr (success s, state s)))"

subsection \<open>\<^verbatim>\<open>_validate_schema\<close> and \<^verbatim>\<open>check_schemas\<close>\<close>

definition validate_schema_body ::
  "env \<Rightarrow> filesys \<Rightarrow> path \<Rightarrow> vstate \<Rightarrow> (exn + bool) \<times> vstate" where
  \<comment> \<open>the body of the \<^verbatim>\<open>try\<close>: what it returns or raises, and the state it leaves\<close>
  "validate_schema_body env fs schema_file st =
     (case and_then (read_bytes fs schema_file) (json_load env) of
        Inl e \<Rightarrow> (Inl e, st)
      | Inr schema \<Rightarrow>
          (case schema of
             PDict kvs \<Rightarrow>
               (let st' = (if dict_get kvs ''$schema'' = None
                           then add_warning (MissingSchemaField schema_file) st else st)
                in if JSONSCHEMA_AVAILABLE env
                   then (case check_schema env schema of
                           Some e \<Rightarrow> (Inl e, st')
                         | None \<Rightarrow> (Inr True, st'))
                   else (Inr True, st'))
           | _ \<Rightarrow> (Inr False, add_error (SchemaNotObject schema_file) st)))"

definition validate_schema :: "env \<Rightarrow> filesys \<Rightarrow> path \<Rightarrow> vstate \<Rightarrow> exn + bool \<times> vstate" where
  \<comment> \<open>the first \<^verbatim>\<open>except\<close> clause names \<^verbatim>\<open>JSONSchemaValidationError\<close>, which is
      unbound when the import of jsonschema failed: matching an exception against it
      raises \<^verbatim>\<open>NameError\<close>\<close>
  "validate_schema env fs schema_file st =
     (case validate_schema_body env fs schema_file st of
        (Inr b, st') \<Rightarrow> Inr (b, st')
      | (Inl e, st') \<Rightarrow>
          if \<not> JSONSCHEMA_AVAILABLE env then Inl NameError
          else if e = ValidationError
          then Inr (False, add_error (InvalidJSONSchema schema_file e) st')
          else Inr (False, add_error (ErrorValidatingSchema schema_file e) st'))"

record sloop =
  schema_count :: nat
  s_success :: bool
  s_state :: vstate

definition glob_json :: "filesys \<Rightarrow> path \<Rightarrow> string list" where
  \<comment> \<open>the names \<^verbatim>\<open>glob("*.json")\<close> matches in \<open>p\<close>; none when \<open>p\<close> is not a directory\<close>
  "glob_json fs p = (case fs p of Some (Dir ns) \<Rightarrow> filter (suffix ''.json'') ns | _ \<Rightarrow> [])"

definition schema_file_step :: "env \<Rightarrow> filesys \<Rightarrow> path \<Rightarrow> string \<Rightarrow> sloop \<Rightarrow> exn + sloop" where
  "schema_file_step env fs jsonschema_dir file_name s =
     and_then (validate_schema env fs (child jsonschema_dir file_name) (s_state s))
       (\<lambda>(valid, st').
          Inr (if \<not> valid then s\<lparr>s_success := False, s_state := st'\<rparr>
               else s\<lparr>schema_count := schema_count s + 1, s_state := st'\<rparr>))"

definition schema_dir_step :: "env \<Rightarrow> filesys \<Rightarrow> string \<Rightarrow> string \<Rightarrow> sloop \<Rightarrow> exn + sloop" where
  "schema_dir_step env fs vendor name s =
     (let jsonschema_dir = pjoin (child (child schemas_dir vendor) name) ''jsonschema''
      in if \<not> exists fs jsonschema_dir then Inr s
         else for_each (schema_file_step env fs jsonschema_dir) (glob_json fs jsonschema_dir) s)"

definition vendor_step :: "env \<Rightarrow> filesys \<Rightarrow> string \<Rightarrow> sloop \<Rightarrow> exn + sloop" where
  "vendor_step env fs vendor s =
     for_each (schema_dir_step env fs vendor) (subdirs fs (child schemas_dir vendor)) s"

definition check_schemas :: "env \<Rightarrow> filesys \<Rightarrow> vstate \<Rightarrow> exn + bool \<times> vstate" where
  "check_schemas env fs st =
     (if \<not> exists fs schemas_dir
      then Inr (True, add_warning (SchemasDirectoryNotFound schemas_dir) st)
      else
        and_then (iterdir fs schemas_dir) (\<lambda>entries.
        and_then (for_each (vendor_step env fs) (filter (visible_dir fs schemas_dir) entries)
                    \<lparr>schema_count = 0, s_success = True, s_state = st\<rparr>) (\<lambda>s.
        Inr (s_success s, s_state s))))"

subsection \<open>\<^verbatim>\<open>validate_all\<close> and \<^verbatim>\<open>main\<close>\<close>

definition validate_all :: "env \<Rightarrow> filesys \<Rightarrow> vstate \<Rightarrow> exn + bool \<times> vstate" where
  \<comment> \<open>three \<^verbatim>\<open>success &= ...\<close> statements in a row\<close>
  "validate_all env fs st =
     (case check_structure fs st of (b1, st1) \<Rightarrow>
        and_then (check_transforms env fs st1) (\<lambda>(b2, st2).
        and_then (check_schemas env fs st2) (\<lambda>(b3, st3).
        Inr (b1 \<and> b2 \<and> b3, st3))))"

record args =
  arg_check_structure :: bool
  arg_check_transforms :: bool
  arg_check_schemas :: bool

definition run :: "env \<Rightarrow> filesys \<Rightarrow> args \<Rightarrow> exn + bool \<times> vstate" where
  \<comment> \<open>the stage \<^verbatim>\<open>main\<close> selects, on a fresh validator\<close>
  "run env fs a =
     (if arg_check_structure a then Inr (check_structure fs init_state)
      else if arg_check_transforms a then check_transforms env fs init_state
      else if arg_check_schemas a then check_schemas env fs init_state
      else validate_all env fs init_state)"

definition main :: "env \<Rightarrow> filesys \<Rightarrow> args \<Rightarrow> int" where
  \<comment> \<open>the exit status: \<^verbatim>\<open>sys.exit(0 if success else 1)\<close>, and 1 when an exception
      leaves \<^verbatim>\<open>main\<close>\<close>
  "main env fs a =
     (case run env fs a of
        Inl e \<Rightarrow> 1
      | Inr (ok, st) \<Rightarrow> if ok then 0 else 1)"

section \<open>The index builder: \<^verbatim>\<open>tools/generate_index.py\<close>\<close>

text \<open>
  A version entry is a Python dictionary with string keys, in insertion order, which is
  the order \<^verbatim>\<open>json.dump(..., sort_keys=False)\<close> writes.
\<close>

type_synonym entry = "(string \<times> pyval) list"

subsection \<open>\<^verbatim>\<open>_read_transform_meta\<close>\<close>

definition base_entry :: "path \<Rightarrow> pyval \<Rightarrow> exn + entry" where
  \<comment> \<open>the five keys every entry has; \<^verbatim>\<open>meta.get\<close> raises on a document that is not a
      mapping\<close>
  "base_entry version_dir meta =
     and_then (py_get meta ''version'' PNone) (\<lambda>version.
     and_then (py_get meta ''from_schema'' PNone) (\<lambda>from_schema.
     and_then (py_get meta ''to_schema'' PNone) (\<lambda>to_schema.
     and_then (py_get meta ''status'' (PStr ''draft'')) (\<lambda>status.
     Inr [(''version'', version), (''from_schema'', from_schema), (''to_schema'', to_schema),
          (''status'', status), (''path'', PStr (version_dir @ ''/''))]))))"

definition add_checksum :: "pyval \<Rightarrow> entry \<Rightarrow> exn + entry" where
  \<comment> \<open>\<^verbatim>\<open>if "checksum" in meta: version_entry["checksum"] = meta["checksum"]\<close>\<close>
  "add_checksum meta version_entry =
     and_then (py_in ''checksum'' meta) (\<lambda>present.
     if present
     then and_then (py_item meta ''checksum'') (\<lambda>c. Inr (version_entry @ [(''checksum'', c)]))
     else Inr version_entry)"

definition add_provenance :: "pyval \<Rightarrow> entry \<Rightarrow> exn + entry" where
  \<comment> \<open>both keys are set whenever the block is there: the author defaults to
      \<^verbatim>\<open>"Unknown"\<close>, the timestamp to \<^verbatim>\<open>None\<close>\<close>
  "add_provenance meta version_entry =
     and_then (py_in ''provenance'' meta) (\<lambda>present.
     if present
     then and_then (py_item meta ''provenance'') (\<lambda>p.
          and_then (py_get p ''author'' (PStr ''Unknown'')) (\<lambda>author.
          and_then (py_get p ''created_utc'' PNone) (\<lambda>created_utc.
          Inr (version_entry @ [(''author'', author), (''created_utc'', created_utc)]))))
     else Inr version_entry)"

definition add_compat :: "pyval \<Rightarrow> entry \<Rightarrow> exn + entry" where
  \<comment> \<open>\<^verbatim>\<open>if "compat" in meta and "from_schema_range" in meta["compat"]\<close>\<close>
  "add_compat meta version_entry =
     and_then (py_in ''compat'' meta) (\<lambda>present.
     if \<not> present then Inr version_entry
     else
       and_then (py_item meta ''compat'') (\<lambda>c.
       and_then (py_in ''from_schema_range'' c) (\<lambda>has_range.
       if \<not> has_range then Inr version_entry
       else
         and_then (py_item c ''from_schema_range'') (\<lambda>r.
         Inr (version_entry @ [(''compat'', PDict [(PStr ''from_schema_range'', r)])])))))"

definition read_transform_meta :: "env \<Rightarrow> filesys \<Rightarrow> path \<Rightarrow> entry option" where
  \<comment> \<open>everything after the test for the file is inside \<^verbatim>\<open>try\<close>; \<^verbatim>\<open>except Exception\<close>
      prints a warning and returns \<^verbatim>\<open>None\<close>\<close>
  "read_transform_meta env fs version_dir =
     (let meta_file = pjoin version_dir ''spec.meta.yaml''
      in if \<not> exists fs meta_file then None
         else
           (case and_then (and_then (read_bytes fs meta_file) (yaml_safe_load env)) (\<lambda>meta.
                 and_then (base_entry version_dir meta) (\<lambda>e1.
                 and_then (add_checksum meta e1) (\<lambda>e2.
                 and_then (add_provenance meta e2) (\<lambda>e3.
                 add_compat meta e3)))) of
              Inl e \<Rightarrow> None
            | Inr version_entry \<Rightarrow> Some version_entry))"

subsection \<open>\<^verbatim>\<open>_collect_transforms\<close>\<close>

text \<open>
  \<^verbatim>\<open>all_transforms\<close> is a dictionary from the transform id to the list of its version
  entries. Its keys are distinct: a key is added only when it is not there.
\<close>

type_synonym groups = "(string \<times> entry list) list"

definition ensure_group :: "string \<Rightarrow> groups \<Rightarrow> groups" where
  \<comment> \<open>\<^verbatim>\<open>if transform_id not in all_transforms: all_transforms[transform_id] = []\<close>\<close>
  "ensure_group k g = (if map_of g k = None then g @ [(k, [])] else g)"

definition append_version :: "string \<Rightarrow> entry \<Rightarrow> groups \<Rightarrow> groups" where
  \<comment> \<open>\<^verbatim>\<open>all_transforms[transform_id].append(version_meta)\<close>\<close>
  "append_version k e g = map (\<lambda>(k', vs). if k' = k then (k', vs @ [e]) else (k', vs)) g"

definition collect_version :: "env \<Rightarrow> filesys \<Rightarrow> string \<Rightarrow> string \<Rightarrow> string \<Rightarrow> groups \<Rightarrow> groups" where
  \<comment> \<open>\<^verbatim>\<open>if version_meta:\<close> holds for every dictionary that is returned, none is empty\<close>
  "collect_version env fs category name version g =
     (case read_transform_meta env fs (child (child (child transforms_dir category) name) version) of
        None \<Rightarrow> g
      | Some version_meta \<Rightarrow> append_version (category @ ''/'' @ name) version_meta g)"

definition collect_transform :: "env \<Rightarrow> filesys \<Rightarrow> string \<Rightarrow> string \<Rightarrow> groups \<Rightarrow> groups" where
  "collect_transform env fs category name g =
     fold (collect_version env fs category name)
       (subdirs fs (child (child transforms_dir category) name))
       (ensure_group (category @ ''/'' @ name) g)"

definition collect_category :: "env \<Rightarrow> filesys \<Rightarrow> string \<Rightarrow> groups \<Rightarrow> groups" where
  "collect_category env fs category g =
     fold (collect_transform env fs category) (subdirs fs (child transforms_dir category)) g"

text \<open>
  \<^verbatim>\<open>versions.sort(key=lambda v: v["version"], reverse=True)\<close>. The sort is stable, also
  when reversed: entries with equal keys keep their order. A list of fewer than two
  entries is not compared at all. Strings are compared with strings (by code point, which
  is the byte order of UTF-8) and numbers with numbers; \<^verbatim>\<open>None\<close>, a mapping, or keys of
  two kinds raise \<^verbatim>\<open>TypeError\<close>. Keys that are sequences are compared element by element
  in Python; the model does not follow that and raises for them too.
\<close>

definition version_key :: "entry \<Rightarrow> exn + pyval" where
  \<comment> \<open>\<^verbatim>\<open>v["version"]\<close>\<close>
  "version_key v = (case map_of v ''version'' of None \<Rightarrow> Inl KeyError | Some x \<Rightarrow> Inr x)"

definition str_key :: "entry \<Rightarrow> string option" where
  "str_key v = (case map_of v ''version'' of Some (PStr s) \<Rightarrow> Some s | _ \<Rightarrow> None)"

definition num_key :: "entry \<Rightarrow> int option" where
  "num_key v =
     (case map_of v ''version'' of
        Some (PInt i) \<Rightarrow> Some i
      | Some (PBool b) \<Rightarrow> Some (if b then 1 else 0)
      | _ \<Rightarrow> None)"

definition sort_desc :: "('a \<Rightarrow> 'k::linorder) \<Rightarrow> 'a list \<Rightarrow> 'a list" where
  \<comment> \<open>a stable sort, descending, that keeps the order of equal keys\<close>
  "sort_desc f xs = rev (sort_key f (rev xs))"

definition sort_versions :: "entry list \<Rightarrow> exn + entry list" where
  "sort_versions vs =
     (if list_ex (\<lambda>v. map_of v ''version'' = None) vs then Inl KeyError
      else if length vs < 2 then Inr vs
      else if list_all (\<lambda>v. str_key v \<noteq> None) vs then Inr (sort_desc (\<lambda>v. the (str_key v)) vs)
      else if list_all (\<lambda>v. num_key v \<noteq> None) vs then Inr (sort_desc (\<lambda>v. the (num_key v)) vs)
      else Inl TypeError)"

record transform_entry =
  t_id :: string
  t_versions :: "entry list"

definition group_entry :: "string \<times> entry list \<Rightarrow> exn + transform_entry" where
  "group_entry = (\<lambda>(transform_id, versions).
     and_then (sort_versions versions) (\<lambda>sorted_versions.
     Inr \<lparr>t_id = transform_id, t_versions = sorted_versions\<rparr>))"

fun collect_results :: "groups \<Rightarrow> exn + transform_entry list" where
  \<comment> \<open>the loop that fills \<^verbatim>\<open>result\<close>\<close>
  "collect_results [] = Inr []"
| "collect_results (kv # kvs) =
     and_then (group_entry kv) (\<lambda>t.
     and_then (collect_results kvs) (\<lambda>ts. Inr (t # ts)))"

definition collect_transforms :: "env \<Rightarrow> filesys \<Rightarrow> exn + transform_entry list" where
  \<comment> \<open>\<^verbatim>\<open>sorted(all_transforms.items())\<close> orders the pairs by the id: the ids are distinct,
      so no two lists of versions are compared\<close>
  "collect_transforms env fs =
     (if \<not> exists fs transforms_dir then Inr []
      else
        and_then (iterdir fs transforms_dir) (\<lambda>entries.
        collect_results
          (sort_key fst
             (fold (collect_category env fs) (filter (visible_dir fs transforms_dir) entries) []))))"

subsection \<open>\<^verbatim>\<open>_collect_schemas\<close> and \<^verbatim>\<open>generate\<close>\<close>

record schema_entry =
  uri :: string
  s_path :: string

definition stem :: "string \<Rightarrow> string" where
  \<comment> \<open>pathlib's \<^verbatim>\<open>stem\<close>: the name without its last suffix; a name whose only dot is the
      first or the last character has no suffix\<close>
  "stem n =
     (let before = rev (drop 1 (dropWhile (\<lambda>c. c \<noteq> CHR ''.'') (rev n)));
          after = rev (takeWhile (\<lambda>c. c \<noteq> CHR ''.'') (rev n))
      in if CHR ''.'' \<in> set n \<and> before \<noteq> [] \<and> after \<noteq> [] then before else n)"

definition schema_file_entry :: "string \<Rightarrow> string \<Rightarrow> string \<Rightarrow> schema_entry" where
  "schema_file_entry vendor name file_name =
     \<lparr>uri = ''iglu:'' @ vendor @ ''/'' @ name @ ''/jsonschema/'' @ stem file_name,
      s_path = child (pjoin (child (child schemas_dir vendor) name) ''jsonschema'') file_name\<rparr>"

definition collect_schema_dir :: "filesys \<Rightarrow> string \<Rightarrow> string \<Rightarrow> schema_entry list" where
  \<comment> \<open>what one vendor/schema pair appends to \<^verbatim>\<open>schemas\<close>\<close>
  "collect_schema_dir fs vendor name =
     (let jsonschema_dir = pjoin (child (child schemas_dir vendor) name) ''jsonschema''
      in if \<not> exists fs jsonschema_dir then []
         else map (schema_file_entry vendor name) (glob_json fs jsonschema_dir))"

definition collect_vendor :: "filesys \<Rightarrow> string \<Rightarrow> schema_entry list" where
  "collect_vendor fs vendor =
     concat (map (collect_schema_dir fs vendor) (subdirs fs (child schemas_dir vendor)))"

definition collect_schemas :: "filesys \<Rightarrow> exn + schema_entry list" where
  "collect_schemas fs =
     (if \<not> exists fs schemas_dir then Inr []
      else
        and_then (iterdir fs schemas_dir) (\<lambda>entries.
        Inr (sort_key uri
               (concat (map (collect_vendor fs) (filter (visible_dir fs schemas_dir) entries))))))"

record index =
  version :: string
  generated_at :: string
  transforms :: "transform_entry list"
  schemas :: "schema_entry list"

definition generate :: "env \<Rightarrow> filesys \<Rightarrow> string \<Rightarrow> exn + index" where
  \<comment> \<open>\<open>now\<close> is \<^verbatim>\<open>datetime.now(timezone.utc).isoformat()\<close>\<close>
  "generate env fs now =
     and_then (collect_transforms env fs) (\<lambda>ts.
     and_then (collect_schemas fs) (\<lambda>ss.
     Inr \<lparr>version = ''1.0.0'', generated_at = now, transforms = ts, schemas = ss\<rparr>))"

section \<open>Auxiliary notions\<close>





text \<open>
  The errors of one kind, and what a step of \<^verbatim>\<open>_validate_transform\<close> does to the pair
  of the flag and the state: it appends errors of a kind \<open>K\<close>, leaves the warnings, and
  clears the flag exactly when it appends something.
\<close>

definition is_checksum_mismatch :: "diag \<Rightarrow> bool" where
  "is_checksum_mismatch d = (case d of ChecksumMismatch i v e a \<Rightarrow> True | _ \<Rightarrow> False)"

definition is_duplicate :: "diag \<Rightarrow> bool" where
  "is_duplicate d = (case d of DuplicateTransform i v \<Rightarrow> True | _ \<Rightarrow> False)"

definition step_diag :: "diag \<Rightarrow> bool" where
  \<comment> \<open>the errors of the field, identity and golden-test steps\<close>
  "step_diag d =
     (case d of
        MissingRequiredField i v f \<Rightarrow> True
      | IDMismatch i v x \<Rightarrow> True
      | VersionMismatch i v x \<Rightarrow> True
      | InvalidEngine i v \<Rightarrow> True
      | TestInputNotFound i v x \<Rightarrow> True
      | TestExpectedNotFound i v x \<Rightarrow> True
      | GoldenTestFailed i v \<Rightarrow> True
      | GoldenInput p \<Rightarrow> True
      | GoldenExpected x \<Rightarrow> True
      | GoldenActual x \<Rightarrow> True
      | GoldenTestError i v e \<Rightarrow> True
      | _ \<Rightarrow> False)"

definition unit_diag :: "diag \<Rightarrow> bool" where
  \<comment> \<open>the errors \<^verbatim>\<open>_validate_transform\<close> can append\<close>
  "unit_diag d =
     (step_diag d \<or> is_checksum_mismatch d \<or>
      (case d of
         MissingSpecJsonata i v \<Rightarrow> True
       | MissingSpecMeta i v \<Rightarrow> True
       | MissingTestsDirectory i v \<Rightarrow> True
       | InvalidYAML i v e \<Rightarrow> True
       | _ \<Rightarrow> False))"

definition delta :: "(diag \<Rightarrow> bool) \<Rightarrow> bool \<times> vstate \<Rightarrow> bool \<times> vstate \<Rightarrow> bool" where
  "delta K = (\<lambda>(b, st) (b', st').
     \<exists>new. errors st' = errors st @ new \<and> warnings st' = warnings st \<and>
           b' = (b \<and> new = []) \<and> list_all K new)"

text \<open>The compatibility range a metadata mapping provides, as the index projects it.\<close>

definition compat_of :: "(pyval \<times> pyval) list \<Rightarrow> pyval option" where
  "compat_of kvs =
     (case dict_get kvs ''compat'' of
        Some (PDict ckvs) \<Rightarrow>
          map_option (\<lambda>r. PDict [(PStr ''from_schema_range'', r)]) (dict_get ckvs ''from_schema_range'')
      | _ \<Rightarrow> None)"

text \<open>
  The errors and warnings of one state after those of another, and the same for a pair
  with a flag and for the locals of the two traversals. A stage that starts from a state
  \<open>p\<close> does what it does from the initial state, after \<open>p\<close>.
\<close>

definition st_append :: "vstate \<Rightarrow> vstate \<Rightarrow> vstate" where
  "st_append p st = \<lparr>errors = errors p @ errors st, warnings = warnings p @ warnings st\<rparr>"

definition shift :: "vstate \<Rightarrow> bool \<times> vstate \<Rightarrow> bool \<times> vstate" where
  "shift p = (\<lambda>(b, st). (b, st_append p st))"

definition t_shift :: "vstate \<Rightarrow> tloop \<Rightarrow> tloop" where
  "t_shift p s = s\<lparr>state := st_append p (state s)\<rparr>"

definition s_shift :: "vstate \<Rightarrow> sloop \<Rightarrow> sloop" where
  "s_shift p s = s\<lparr>s_state := st_append p (s_state s)\<rparr>"

text \<open>
  The version directories that \<^verbatim>\<open>check_transforms\<close> visits, in the order of the three
  nested loops, and the pairs of transform id and version they yield. The path of a
  version directory is determined by its pair.
\<close>

definition units :: "filesys \<Rightarrow> string list \<Rightarrow> (string \<times> string \<times> string) list" where
  "units fs cs =
     concat (map (\<lambda>c.
       concat (map (\<lambda>n.
         map (\<lambda>v. (c, n, v)) (subdirs fs (child (child transforms_dir c) n)))
         (subdirs fs (child transforms_dir c))))
       cs)"

definition traversal :: "filesys \<Rightarrow> (string \<times> string) list" where
  "traversal fs =
     (case iterdir fs transforms_dir of
        Inl e \<Rightarrow> []
      | Inr entries \<Rightarrow>
          map (\<lambda>(c, n, v). (c @ ''/'' @ n, v))
            (units fs (filter (visible_dir fs transforms_dir) entries)))"

definition keys :: "(string \<times> string \<times> string) list \<Rightarrow> (string \<times> string) list" where
  "keys us = map (\<lambda>(c, n, v). (c @ ''/'' @ n, v)) us"

text \<open>
  The validation of one pair on its own, from the initial state: whether it succeeds and
  the errors it records. The errors expected of a traversal: a pair that was seen before
  yields the duplicate error and nothing else, a new pair yields its own errors.
\<close>

definition unit_run :: "env \<Rightarrow> filesys \<Rightarrow> string \<times> string \<Rightarrow> exn + bool \<times> vstate" where
  "unit_run env fs = (\<lambda>(i, v).
     validate_transform env fs (child (child transforms_dir i) v) i v init_state)"

definition unit_valid :: "env \<Rightarrow> filesys \<Rightarrow> string \<times> string \<Rightarrow> bool" where
  "unit_valid env fs k = (case unit_run env fs k of Inr (ok, st) \<Rightarrow> ok | Inl e \<Rightarrow> False)"

definition unit_errors :: "env \<Rightarrow> filesys \<Rightarrow> string \<times> string \<Rightarrow> diag list" where
  "unit_errors env fs k = (case unit_run env fs k of Inr (ok, st) \<Rightarrow> errors st | Inl e \<Rightarrow> [])"

fun expected_errors ::
  "env \<Rightarrow> filesys \<Rightarrow> (string \<times> string) set \<Rightarrow> (string \<times> string) list \<Rightarrow> diag list" where
  "expected_errors env fs seen [] = []"
| "expected_errors env fs seen (k # ks) =
     (if k \<in> seen then [DuplicateTransform (fst k) (snd k)] else unit_errors env fs k)
     @ expected_errors env fs (insert k seen) ks"

text \<open>
  For the index builder: the category directories and the transform directories it
  visits, the version entries it reads in one transform directory, and those it reads
  for one transform id, in the order of the traversal.
\<close>

definition transform_dirs :: "filesys \<Rightarrow> string list \<Rightarrow> (string \<times> string) list" where
  "transform_dirs fs cs =
     concat (map (\<lambda>c. map (\<lambda>n. (c, n)) (subdirs fs (child transforms_dir c))) cs)"

definition dir_versions :: "env \<Rightarrow> filesys \<Rightarrow> string \<times> string \<Rightarrow> entry list" where
  "dir_versions env fs = (\<lambda>(c, n).
     List.map_filter
       (\<lambda>v. read_transform_meta env fs (child (child (child transforms_dir c) n) v))
       (subdirs fs (child (child transforms_dir c) n)))"

definition group_versions :: "env \<Rightarrow> filesys \<Rightarrow> string list \<Rightarrow> string \<Rightarrow> entry list" where
  "group_versions env fs cs i =
     concat (map (\<lambda>(c, n). if c @ ''/'' @ n = i then dir_versions env fs (c, n) else [])
               (transform_dirs fs cs))"

definition categories :: "filesys \<Rightarrow> string list" where
  "categories fs =
     (case iterdir fs transforms_dir of
        Inl e \<Rightarrow> []
      | Inr entries \<Rightarrow> filter (visible_dir fs transforms_dir) entries)"

text \<open>
  The traversal as a list of events on \<^verbatim>\<open>all_transforms\<close>: an event makes sure that the
  group of an id is there and appends an entry to it, if it carries one.
\<close>

type_synonym event = "string \<times> entry option"

definition apply_event :: "event \<Rightarrow> groups \<Rightarrow> groups" where
  "apply_event = (\<lambda>(i, x) g.
     case x of None \<Rightarrow> ensure_group i g | Some e \<Rightarrow> append_version i e (ensure_group i g))"

definition dir_events :: "env \<Rightarrow> filesys \<Rightarrow> string \<times> string \<Rightarrow> event list" where
  "dir_events env fs = (\<lambda>(c, n).
     (c @ ''/'' @ n, None) #
     map (\<lambda>v. (c @ ''/'' @ n, read_transform_meta env fs (child (child (child transforms_dir c) n) v)))
       (subdirs fs (child (child transforms_dir c) n)))"

definition adds :: "event list \<Rightarrow> string \<Rightarrow> entry list" where
  "adds evs i = concat (map (\<lambda>(j, x). if j = i then (case x of None \<Rightarrow> [] | Some e \<Rightarrow> [e]) else []) evs)"

definition base :: "groups \<Rightarrow> string \<Rightarrow> entry list" where
  "base g i = (case map_of g i of None \<Rightarrow> [] | Some vs \<Rightarrow> vs)"

subsection \<open>Example registries\<close>

text \<open>
  Stand-ins for the libraries, for evaluating the tools on the examples: a JSON parser that
  knows the empty object, a YAML parser that knows the documents of a table, an evaluator
  that returns its input.
\<close>

definition demo_env :: "(string \<times> pyval) list \<Rightarrow> env" where
  "demo_env yaml_docs =
     \<lparr>yaml_safe_load = (\<lambda>b. case map_of yaml_docs b of None \<Rightarrow> Inl YAMLError | Some v \<Rightarrow> Inr v),
      json_load = (\<lambda>b. if b = ''{}'' then Inr (PDict []) else Inl JSONDecodeError),
      read_text = Inr,
      jsonata_evaluate = (\<lambda>e x. Inr x),
      check_schema = (\<lambda>s. None),
      JSONATA_AVAILABLE = True,
      JSONSCHEMA_AVAILABLE = True\<rparr>"


text \<open>
  A registry with one version directory, \<^verbatim>\<open>transforms/payments/normalize_amount/1.0.0\<close>,
  for the bytes of its expression file and of its metadata file.
\<close>

definition unit_dir :: path where
  "unit_dir = ''transforms/payments/normalize_amount/1.0.0''"

definition one_unit_fs :: "string \<Rightarrow> string \<Rightarrow> filesys" where
  "one_unit_fs expr doc = map_of
     [(''transforms'', Dir [''payments'']),
      (''transforms/payments'', Dir [''normalize_amount'']),
      (''transforms/payments/normalize_amount'', Dir [''1.0.0'']),
      (''transforms/payments/normalize_amount/1.0.0'',
         Dir [''spec.jsonata'', ''spec.meta.yaml'', ''tests'']),
      (''transforms/payments/normalize_amount/1.0.0/spec.jsonata'', File expr),
      (''transforms/payments/normalize_amount/1.0.0/spec.meta.yaml'', File doc),
      (''transforms/payments/normalize_amount/1.0.0/tests'', Dir [])]"

text \<open>
  A metadata document in YAML flow style, and the mapping it parses to, for the text and
  the value of its version, of its checksum block and of its list of tests.
\<close>

definition meta_doc :: "string \<Rightarrow> string \<Rightarrow> string \<Rightarrow> string" where
  "meta_doc ver checksum tests =
     ''{id: payments/normalize_amount, version: '' @ ver @
     '', engine: jsonata, from_schema: iglu:acme/raw/jsonschema/1-0-0'' @
     '', to_schema: iglu:acme/order/jsonschema/1-0-0, tests: '' @ tests @
     '', checksum: '' @ checksum @
     '', provenance: {author: ben, created_utc: 2024-01-01 UTC}'' @
     '', compat: {from_schema_range: 1-0-x}, status: published}''"

definition meta_kvs :: "pyval \<Rightarrow> pyval \<Rightarrow> pyval \<Rightarrow> (pyval \<times> pyval) list" where
  "meta_kvs ver checksum tests =
     [(PStr ''id'', PStr ''payments/normalize_amount''),
      (PStr ''version'', ver),
      (PStr ''engine'', PStr ''jsonata''),
      (PStr ''from_schema'', PStr ''iglu:acme/raw/jsonschema/1-0-0''),
      (PStr ''to_schema'', PStr ''iglu:acme/order/jsonschema/1-0-0''),
      (PStr ''tests'', tests),
      (PStr ''checksum'', checksum),
      (PStr ''provenance'',
         PDict [(PStr ''author'', PStr ''ben''), (PStr ''created_utc'', PStr ''2024-01-01 UTC'')]),
      (PStr ''compat'', PDict [(PStr ''from_schema_range'', PStr ''1-0-x'')]),
      (PStr ''status'', PStr ''published'')]"

text \<open>A metadata document without a checksum block and with an empty provenance block.\<close>

definition doc_without_checksum :: string where
  "doc_without_checksum =
     ''{id: payments/normalize_amount, version: 1.0.0, engine: jsonata'' @
     '', from_schema: iglu:acme/raw/jsonschema/1-0-0'' @
     '', to_schema: iglu:acme/order/jsonschema/1-0-0, tests: [], provenance: {}, status: draft}''"

definition kvs_without_checksum :: "(pyval \<times> pyval) list" where
  "kvs_without_checksum =
     [(PStr ''id'', PStr ''payments/normalize_amount''),
      (PStr ''version'', PStr ''1.0.0''),
      (PStr ''engine'', PStr ''jsonata''),
      (PStr ''from_schema'', PStr ''iglu:acme/raw/jsonschema/1-0-0''),
      (PStr ''to_schema'', PStr ''iglu:acme/order/jsonschema/1-0-0''),
      (PStr ''tests'', PList []),
      (PStr ''provenance'', PDict []),
      (PStr ''status'', PStr ''draft'')]"


text \<open>
  A valid version: the checksum block declares the digest of the expression. And a
  listing that reports the version directory twice.
\<close>

definition valid_doc :: string where
  "valid_doc = meta_doc ''1.0.0'' (''{jsonata_sha256: '' @ sha256_hexdigest ''$'' @ ''}'') ''[]''"

definition valid_kvs :: "(pyval \<times> pyval) list" where
  "valid_kvs = meta_kvs (PStr ''1.0.0'')
                 (PDict [(PStr ''jsonata_sha256'', PStr (sha256_hexdigest ''$''))]) (PList [])"

definition listed_twice_fs :: filesys where
  "listed_twice_fs =
     (one_unit_fs ''$'' valid_doc)
       (''transforms/payments/normalize_amount'' \<mapsto> Dir [''1.0.0'', ''1.0.0''])"




definition no_metadata_fs :: filesys where
  "no_metadata_fs = map_of
     [(''transforms'', Dir [''payments'']),
      (''transforms/payments'', Dir [''normalize_amount'']),
      (''transforms/payments/normalize_amount'', Dir [''1.0.0'']),
      (''transforms/payments/normalize_amount/1.0.0'', Dir [''spec.jsonata'']),
      (''transforms/payments/normalize_amount/1.0.0/spec.jsonata'', File ''$'')]"

section \<open>Properties of the validator\<close>

lemmas fs_defs = pjoin_def child_def exists_def is_dir_def iterdir_def read_bytes_def
  visible_dir_def subdirs_def glob_json_def transforms_dir_def schemas_dir_def

lemmas validator_defs = and_then_def init_state_def add_error_def add_warning_def
  required_dirs_def check_structure_def check_transforms_def check_transforms_loop_def
  category_step_def transform_step_def version_step_def
  validate_schema_body_def validate_schema_def schema_file_step_def schema_dir_step_def
  vendor_step_def check_schemas_def validate_all_def run_def main_def dict_get_def

lemmas transform_defs = validate_transform_def check_field_def check_identity_def
  check_checksum_def check_golden_tests_def golden_test_step_def run_golden_test_def
  compute_sha256_def required_fields_def py_in_def py_get_def py_item_def py_iter_def
  path_div_def

lemmas index_defs = read_transform_meta_def base_entry_def add_checksum_def add_provenance_def
  add_compat_def and_then_def py_in_def py_get_def py_item_def dict_get_def

subsection \<open>The flag of a stage and the errors it records\<close>























subsection \<open>What the steps of \<^verbatim>\<open>_validate_transform\<close> append\<close>

lemma delta_refl: "delta K x x"
  by (cases x) (simp add: delta_def)

lemma delta_trans: "delta K x y \<Longrightarrow> delta K y z \<Longrightarrow> delta K x z"
  by (cases x; cases y; cases z) (auto simp: delta_def)

lemma delta_mono: "(\<And>e. K e \<Longrightarrow> K' e) \<Longrightarrow> delta K x y \<Longrightarrow> delta K' x y"
  by (cases x; cases y) (auto simp: delta_def list_all_iff)

lemma delta_error: "K e \<Longrightarrow> delta K (b, st) (False, add_error e st)"
  by (simp add: delta_def add_error_def)

lemma for_each_delta:
  assumes "\<And>x s s'. x \<in> set xs \<Longrightarrow> body x s = Inr s' \<Longrightarrow> delta K s s'"
    and "for_each body xs s = Inr s'"
  shows "delta K s s'"
  using assms
proof (induction xs arbitrary: s)
  case Nil
  then show ?case by (simp add: delta_refl)
next
  case (Cons x xs)
  from Cons.prems(2) obtain s1 where 1: "body x s = Inr s1" and 2: "for_each body xs s1 = Inr s'"
    by (auto split: sum.splits)
  have "delta K s s1"
    by (rule Cons.prems(1) [of x, OF _ 1]) simp
  moreover have "delta K s1 s'"
    by (rule Cons.IH [OF _ 2]) (rule Cons.prems(1), simp_all)
  ultimately show ?case by (rule delta_trans)
qed

lemma check_field_delta:
  "check_field i v meta f x = Inr y \<Longrightarrow> delta step_diag x y"
  by (cases x)
     (auto simp: check_field_def and_then_def step_diag_def delta_refl
           split: sum.splits if_splits intro!: delta_error)

lemma check_identity_delta:
  "check_identity i v meta x = Inr y \<Longrightarrow> delta step_diag x y"
  by (cases x)
     (auto simp: check_identity_def and_then_def add_error_def delta_def Let_def
                 step_diag_def
           split: sum.splits if_splits)

lemma run_golden_test_delta:
  "run_golden_test env fs j a e i v st = (p, st') \<Longrightarrow>
     delta step_diag (b, st) (if \<not> p then False else b, st')"
  by (auto simp: run_golden_test_def add_error_def delta_def step_diag_def
           split: sum.splits if_splits prod.splits)

lemma run_golden_test_delta_fail:
  "\<not> fst (run_golden_test env fs j a e i v st) \<Longrightarrow>
     delta step_diag (b, st) (False, snd (run_golden_test env fs j a e i v st))"
  using run_golden_test_delta [of env fs j a e i v st _ _ b] by (simp add: prod_eq_iff)

lemma run_golden_test_delta_pass:
  "fst (run_golden_test env fs j a e i v st) \<Longrightarrow>
     delta step_diag (b, st) (b, snd (run_golden_test env fs j a e i v st))"
  using run_golden_test_delta [of env fs j a e i v st _ _ b] by (simp add: prod_eq_iff)

lemma golden_test_step_delta:
  assumes "golden_test_step env fs d j i v spec x = Inr y"
  shows "delta step_diag x y"
proof -
  obtain b st where x: "x = (b, st)" by (cases x)
  have k: "step_diag (TestInputNotFound i v a)"
          "step_diag (TestExpectedNotFound i v a)" for a
    by (simp_all add: step_diag_def)
  show ?thesis
    using assms unfolding x golden_test_step_def and_then_def
    by (auto simp: case_prod_beta k split: sum.splits if_splits
             intro!: delta_error run_golden_test_delta_fail run_golden_test_delta_pass)
qed

lemma check_golden_tests_delta:
  assumes "check_golden_tests env fs d j i v meta x = Inr y"
  shows "delta step_diag x y"
proof (cases "x = y")
  case True
  then show ?thesis by (simp add: delta_refl)
next
  case False
  with assms obtain specs where
    "for_each (golden_test_step env fs d j i v) specs x = Inr y"
    by (auto simp: check_golden_tests_def and_then_def split: sum.splits if_splits)
  then show ?thesis
    by (rule for_each_delta [rotated]) (rule golden_test_step_delta)
qed

lemma check_fields_dict:
  "for_each (check_field i v (PDict kvs)) names (b, st) =
     Inr (b \<and> list_all (\<lambda>f. dict_get kvs f \<noteq> None) names,
          st\<lparr>errors := errors st @ map (MissingRequiredField i v)
                                     (filter (\<lambda>f. dict_get kvs f = None) names)\<rparr>)"
  by (induction names arbitrary: b st)
     (auto simp: check_field_def and_then_def py_in_def add_error_def)

lemma check_checksum_absent:
  "dict_get kvs ''checksum'' = None \<Longrightarrow>
     check_checksum fs j i v (PDict kvs) x = Inr x"
  by (cases x) (simp add: check_checksum_def and_then_def py_in_def)

subsection \<open>Digests and the checksum comparison\<close>










subsection \<open>A stage does the same after any earlier state\<close>

lemma st_append_init [simp]: "st_append init_state st = st" "st_append st init_state = st"
  by (simp_all add: st_append_def init_state_def)

lemma st_append_assoc: "st_append (st_append a b) c = st_append a (st_append b c)"
  by (simp add: st_append_def)

lemma add_error_shift: "add_error d (st_append p st) = st_append p (add_error d st)"
  by (simp add: add_error_def st_append_def)

lemma add_warning_shift: "add_warning d (st_append p st) = st_append p (add_warning d st)"
  by (simp add: add_warning_def st_append_def)

lemma shift_simps [simp]: "shift p (b, st) = (b, st_append p st)"
  by (simp add: shift_def)

lemma fst_shift [simp]: "fst (shift p r) = fst r"
  by (cases r) simp

lemma snd_shift [simp]: "snd (shift p r) = st_append p (snd r)"
  by (cases r) simp

lemma for_each_shift:
  assumes "\<And>x s. x \<in> set xs \<Longrightarrow> body x (A s) = map_sum id A (body x s)"
  shows "for_each body xs (A s) = map_sum id A (for_each body xs s)"
  using assms by (induction xs arbitrary: s) (auto split: sum.splits)

lemma check_field_shift:
  "check_field i v meta f (b, st_append p st) = map_sum id (shift p) (check_field i v meta f (b, st))"
  by (auto simp: check_field_def and_then_def add_error_shift split: sum.splits)

lemma check_identity_shift:
  "check_identity i v meta (b, st_append p st) = map_sum id (shift p) (check_identity i v meta (b, st))"
  by (auto simp: check_identity_def and_then_def add_error_shift Let_def split: sum.splits)

lemma check_checksum_shift:
  "check_checksum fs j i v meta (b, st_append p st) = map_sum id (shift p) (check_checksum fs j i v meta (b, st))"
  by (auto simp: check_checksum_def and_then_def add_error_shift split: sum.splits)

lemma run_golden_test_shift:
  "run_golden_test env fs j a e i v (st_append p st) = shift p (run_golden_test env fs j a e i v st)"
  by (auto simp: run_golden_test_def add_error_shift split: sum.splits prod.splits)

lemma golden_test_step_shift:
  "golden_test_step env fs d j i v spec (b, st_append p st) =
     map_sum id (shift p) (golden_test_step env fs d j i v spec (b, st))"
  by (auto simp: golden_test_step_def and_then_def add_error_shift run_golden_test_shift
                 case_prod_beta
           split: sum.splits)

lemma check_golden_tests_shift:
  "check_golden_tests env fs d j i v meta (b, st_append p st) =
     map_sum id (shift p) (check_golden_tests env fs d j i v meta (b, st))"
proof -
  have f: "for_each (golden_test_step env fs d j i v) specs (b, st_append p st) =
      map_sum id (shift p) (for_each (golden_test_step env fs d j i v) specs (b, st))" for specs
    using for_each_shift [where A = "shift p" and s = "(b, st)"
        and body = "golden_test_step env fs d j i v" and xs = specs]
    by (simp add: golden_test_step_shift split_paired_all)
  show ?thesis
    unfolding check_golden_tests_def and_then_def
    by (auto split: sum.splits simp: f)
qed

lemma validate_transform_shift:
  "validate_transform env fs d i v (st_append p st) =
     map_sum id (shift p) (validate_transform env fs d i v st)"
proof -
  have f: "for_each (check_field i v meta) required_fields (True, st_append p st) =
      map_sum id (shift p) (for_each (check_field i v meta) required_fields (True, st))" for meta
    using for_each_shift [where A = "shift p" and s = "(True, st)"
        and body = "check_field i v meta" and xs = required_fields]
    by (simp add: check_field_shift split_paired_all)
  show ?thesis
    unfolding validate_transform_def Let_def and_then_def f
    by (auto simp: add_error_shift check_identity_shift check_checksum_shift
                   check_golden_tests_shift
             split: sum.splits)
qed

lemma t_shift_simps [simp]:
  "transform_ids (t_shift p s) = transform_ids s"
  "transform_count (t_shift p s) = transform_count s"
  "success (t_shift p s) = success s"
  "state (t_shift p s) = st_append p (state s)"
  by (simp_all add: t_shift_def)

lemma version_step_shift:
  "version_step env fs c n v (t_shift p s) = map_sum id (t_shift p) (version_step env fs c n v s)"
  by (auto simp: version_step_def Let_def and_then_def validate_transform_shift add_error_shift
                 t_shift_def
           split: sum.splits)

lemma transform_step_shift:
  "transform_step env fs c n (t_shift p s) = map_sum id (t_shift p) (transform_step env fs c n s)"
  unfolding transform_step_def
  by (rule for_each_shift) (rule version_step_shift)

lemma category_step_shift:
  "category_step env fs c (t_shift p s) = map_sum id (t_shift p) (category_step env fs c s)"
  unfolding category_step_def
  by (rule for_each_shift) (rule transform_step_shift)

lemma check_transforms_loop_shift:
  "check_transforms_loop env fs (st_append p st) =
     map_sum id (t_shift p) (check_transforms_loop env fs st)"
proof -
  have init: "\<lparr>transform_ids = {}, transform_count = 0, success = True, state = st_append p st\<rparr>
        = t_shift p \<lparr>transform_ids = {}, transform_count = 0, success = True, state = st\<rparr>"
    by (simp add: t_shift_def)
  have fe: "for_each (category_step env fs) xs (t_shift p s) =
      map_sum id (t_shift p) (for_each (category_step env fs) xs s)" for xs s
    by (rule for_each_shift) (rule category_step_shift)
  show ?thesis
    unfolding check_transforms_loop_def and_then_def init
    by (simp add: fe split: sum.splits)
qed

lemma check_transforms_shift:
  "check_transforms env fs (st_append p st) = map_sum id (shift p) (check_transforms env fs st)"
  unfolding check_transforms_def and_then_def
  by (auto simp: check_transforms_loop_shift add_error_shift split: sum.splits)

lemma check_structure_loop_shift:
  "check_structure_loop fs ds (st_append p st) = shift p (check_structure_loop fs ds st)"
  by (induction ds) (simp_all add: add_error_shift)

lemma validate_schema_shift:
  "validate_schema env fs f (st_append p st) = map_sum id (shift p) (validate_schema env fs f st)"
  by (auto simp: validate_schema_def validate_schema_body_def and_then_def Let_def
                 add_error_shift add_warning_shift
           split: sum.splits pyval.splits option.splits)

lemma s_shift_simps [simp]:
  "schema_count (s_shift p s) = schema_count s"
  "s_success (s_shift p s) = s_success s"
  "s_state (s_shift p s) = st_append p (s_state s)"
  by (simp_all add: s_shift_def)

lemma schema_file_step_shift:
  "schema_file_step env fs d f (s_shift p s) = map_sum id (s_shift p) (schema_file_step env fs d f s)"
  by (auto simp: schema_file_step_def and_then_def validate_schema_shift s_shift_def
           split: sum.splits)

lemma schema_dir_step_shift:
  "schema_dir_step env fs v n (s_shift p s) = map_sum id (s_shift p) (schema_dir_step env fs v n s)"
  unfolding schema_dir_step_def Let_def
  by (simp add: for_each_shift [where A = "s_shift p"] schema_file_step_shift)

lemma vendor_step_shift:
  "vendor_step env fs v (s_shift p s) = map_sum id (s_shift p) (vendor_step env fs v s)"
  unfolding vendor_step_def
  by (rule for_each_shift) (rule schema_dir_step_shift)

lemma check_schemas_shift:
  "check_schemas env fs (st_append p st) = map_sum id (shift p) (check_schemas env fs st)"
proof -
  have init: "\<lparr>schema_count = 0, s_success = True, s_state = st_append p st\<rparr>
        = s_shift p \<lparr>schema_count = 0, s_success = True, s_state = st\<rparr>"
    by (simp add: s_shift_def)
  have fe: "for_each (vendor_step env fs) xs (s_shift p s) =
      map_sum id (s_shift p) (for_each (vendor_step env fs) xs s)" for xs s
    by (rule for_each_shift) (rule vendor_step_shift)
  show ?thesis
    unfolding check_schemas_def and_then_def init
    by (auto simp: fe add_warning_shift split: sum.splits)
qed

subsection \<open>The traversal of the version directories\<close>

lemma for_each_append:
  "for_each body (xs @ ys) s = and_then (for_each body xs s) (for_each body ys)"
  by (induction xs arbitrary: s) (auto simp: and_then_def split: sum.splits)

lemma for_each_concat_map:
  "for_each body (concat (map f xs)) s = for_each (\<lambda>x. for_each body (f x)) xs s"
  by (induction xs arbitrary: s) (auto simp: for_each_append and_then_def split: sum.splits)

lemma for_each_map:
  "for_each body (map f xs) s = for_each (\<lambda>x. body (f x)) xs s"
  by (induction xs arbitrary: s) (auto split: sum.splits)

lemma category_loop_flat:
  "for_each (category_step env fs) cs s =
     for_each (\<lambda>(c, n, v). version_step env fs c n v) (units fs cs) s"
  unfolding units_def for_each_concat_map for_each_map category_step_def transform_step_def
  by simp

lemma check_checksum_delta:
  "check_checksum fs j i v meta x = Inr y \<Longrightarrow> delta is_checksum_mismatch x y"
  by (cases x)
     (auto simp: check_checksum_def and_then_def add_error_def delta_def is_checksum_mismatch_def
           split: sum.splits if_splits)

lemma validate_transform_delta:
  assumes "validate_transform env fs d i v st = Inr y"
  shows "delta unit_diag (True, st) y"
proof -
  have early: "delta unit_diag (True, st) (False, add_error e st)"
    if "e = MissingSpecJsonata i v \<or> e = MissingSpecMeta i v \<or> e = MissingTestsDirectory i v
        \<or> (\<exists>x. e = InvalidYAML i v x)" for e
    using that by (auto intro!: delta_error simp: unit_diag_def)
  have step: "delta unit_diag x z" if "delta step_diag x z" for x z
    using that by (rule delta_mono [rotated]) (simp add: unit_diag_def)
  have ck: "delta unit_diag x z" if "delta is_checksum_mismatch x z" for x z
    using that by (rule delta_mono [rotated]) (simp add: unit_diag_def)
  have fields: "delta unit_diag (True, st) s1"
    if "for_each (check_field i v meta) required_fields (True, st) = Inr s1" for meta s1
    by (rule step, rule for_each_delta [OF _ that]) (rule check_field_delta)
  show ?thesis
    using assms
    unfolding validate_transform_def Let_def and_then_def
    by (auto simp: early split: sum.splits if_splits dest!: fields)
       (blast intro: delta_trans step ck check_identity_delta check_checksum_delta
                     check_golden_tests_delta)
qed

lemma version_step_effect:
  assumes "version_step env fs c n v s = Inr s'"
  defines "k \<equiv> (c @ ''/'' @ n, v)"
  shows "transform_ids s' = insert k (transform_ids s)"
    and "errors (state s') = errors (state s) @
           (if k \<in> transform_ids s then [DuplicateTransform (fst k) (snd k)]
            else unit_errors env fs k)"
    and "transform_count s' = transform_count s +
           (if k \<notin> transform_ids s \<and> unit_valid env fs k then 1 else 0)"
proof -
  have path: "child (child (child transforms_dir c) n) v = child (child transforms_dir (c @ ''/'' @ n)) v"
    by (simp add: child_def)
  have vt: "validate_transform env fs (child (child (child transforms_dir c) n) v) (c @ ''/'' @ n) v
              (state (s\<lparr>transform_ids := insert (c @ ''/'' @ n, v) (transform_ids s)\<rparr>))
            = map_sum id (shift (state s)) (unit_run env fs k)"
    using validate_transform_shift [of env fs _ "c @ ''/'' @ n" v "state s" init_state]
    by (simp add: unit_run_def k_def path)
  have eq: "version_step env fs c n v s =
      (if k \<in> transform_ids s
       then Inr (s\<lparr>success := False,
                   state := add_error (DuplicateTransform (fst k) (snd k)) (state s)\<rparr>)
       else case unit_run env fs k of
              Inl e \<Rightarrow> Inl e
            | Inr (valid, d) \<Rightarrow>
                Inr (if \<not> valid
                     then s\<lparr>transform_ids := insert k (transform_ids s), success := False,
                            state := st_append (state s) d\<rparr>
                     else s\<lparr>transform_ids := insert k (transform_ids s),
                            transform_count := transform_count s + 1,
                            state := st_append (state s) d\<rparr>))"
    unfolding version_step_def Let_def and_then_def vt
    by (auto simp: k_def split: sum.splits)
  show "transform_ids s' = insert k (transform_ids s)"
    using assms(1) unfolding eq
    by (auto split: if_splits sum.splits)
  show "errors (state s') = errors (state s) @
           (if k \<in> transform_ids s then [DuplicateTransform (fst k) (snd k)]
            else unit_errors env fs k)"
    using assms(1) unfolding eq
    by (auto split: if_splits sum.splits simp: unit_errors_def add_error_def st_append_def)
  show "transform_count s' = transform_count s +
           (if k \<notin> transform_ids s \<and> unit_valid env fs k then 1 else 0)"
    using assms(1) unfolding eq
    by (auto split: if_splits sum.splits simp: unit_valid_def)
qed

lemma unit_loop_effect:
  assumes "for_each (\<lambda>(c, n, v). version_step env fs c n v) us s = Inr s'"
  shows "transform_ids s' = transform_ids s \<union> set (keys us) \<and>
         errors (state s') = errors (state s) @ expected_errors env fs (transform_ids s) (keys us) \<and>
         transform_count s' = transform_count s +
           card {k \<in> set (keys us). k \<notin> transform_ids s \<and> unit_valid env fs k}"
  using assms
proof (induction us arbitrary: s)
  case Nil
  then show ?case by (simp add: keys_def)
next
  case (Cons u us)
  obtain c n v where u: "u = (c, n, v)" by (cases u)
  define k where "k = (c @ ''/'' @ n, v)"
  from Cons.prems obtain s1 where
    1: "version_step env fs c n v s = Inr s1" and
    2: "for_each (\<lambda>(c, n, v). version_step env fs c n v) us s1 = Inr s'"
    by (auto simp: u split: sum.splits)
  note e = version_step_effect [OF 1, folded k_def]
  note ih = Cons.IH [OF 2, unfolded e]
  have ks: "keys (u # us) = k # keys us"
    by (simp add: keys_def u k_def)
  have fin: "finite {k' \<in> set (keys us). k' \<notin> insert k (transform_ids s) \<and> unit_valid env fs k'}"
    by simp
  have split: "{k' \<in> set (k # keys us). k' \<notin> transform_ids s \<and> unit_valid env fs k'} =
      (if k \<notin> transform_ids s \<and> unit_valid env fs k then {k} else {}) \<union>
      {k' \<in> set (keys us). k' \<notin> insert k (transform_ids s) \<and> unit_valid env fs k'}"
    by auto
  have card: "card {k' \<in> set (k # keys us). k' \<notin> transform_ids s \<and> unit_valid env fs k'} =
      (if k \<notin> transform_ids s \<and> unit_valid env fs k then 1 else 0) +
      card {k' \<in> set (keys us). k' \<notin> insert k (transform_ids s) \<and> unit_valid env fs k'}"
    unfolding split using fin by (auto simp: card_insert_if)
  show ?case
    using ih unfolding ks card by auto
qed

lemma unit_errors_diag: "list_all unit_diag (unit_errors env fs k)"
proof (cases "unit_run env fs k")
  case (Inl e)
  then show ?thesis by (simp add: unit_errors_def)
next
  case (Inr r)
  obtain i v where k: "k = (i, v)" by (cases k)
  from Inr have "delta unit_diag (True, init_state) r"
    unfolding unit_run_def k by (auto intro: validate_transform_delta)
  with Inr show ?thesis
    by (cases r) (auto simp: unit_errors_def delta_def init_state_def)
qed

lemma count_duplicates:
  "count_list (expected_errors env fs seen ks) (DuplicateTransform i v) =
     count_list ks (i, v) - (if (i, v) \<in> seen then 0 else 1)"
proof (induction ks arbitrary: seen)
  case Nil
  then show ?case by simp
next
  case (Cons k ks)
  have none: "count_list (unit_errors env fs k) (DuplicateTransform i v) = 0"
    using unit_errors_diag [of env fs k]
    by (auto simp: count_list_0_iff list_all_iff unit_diag_def step_diag_def is_checksum_mismatch_def)
  show ?case
    by (cases "k = (i, v)") (auto simp: Cons.IH none prod_eq_iff)
qed

section \<open>Properties of the index builder\<close>

subsection \<open>The keys of a version entry\<close>

lemma base_entry_keys:
  "base_entry d meta = Inr e \<Longrightarrow>
     \<exists>kvs a b c s. meta = PDict kvs \<and>
        e = [(''version'', a), (''from_schema'', b), (''to_schema'', c), (''status'', s),
             (''path'', PStr (d @ ''/''))]"
  by (auto simp: base_entry_def and_then_def py_get_def split: sum.splits pyval.splits)

lemma map_of_app:
  "map_of (xs @ ys) k = (case map_of xs k of None \<Rightarrow> map_of ys k | Some v \<Rightarrow> Some v)"
  by (simp add: map_add_def split: option.splits)

lemma add_checksum_keys:
  "add_checksum (PDict kvs) e = Inr e' \<Longrightarrow>
     \<exists>cs. e' = e @ cs \<and> map_of cs ''checksum'' = dict_get kvs ''checksum'' \<and>
          map_of cs ''author'' = None \<and> map_of cs ''created_utc'' = None \<and>
          map_of cs ''compat'' = None"
  by (auto simp: add_checksum_def and_then_def py_in_def py_item_def
           split: sum.splits if_splits option.splits)

lemma add_provenance_shape:
  "add_provenance (PDict kvs) e = Inr e' \<Longrightarrow>
     (case dict_get kvs ''provenance'' of
        None \<Rightarrow> e' = e
      | Some p \<Rightarrow> \<exists>pkvs. p = PDict pkvs \<and>
          e' = e @ [(''author'', case dict_get pkvs ''author'' of None \<Rightarrow> PStr ''Unknown'' | Some a \<Rightarrow> a),
                    (''created_utc'', case dict_get pkvs ''created_utc'' of None \<Rightarrow> PNone | Some c \<Rightarrow> c)])"
  by (auto simp: add_provenance_def and_then_def py_in_def py_item_def py_get_def
           split: sum.splits if_splits option.splits pyval.splits)

lemma add_provenance_keys:
  assumes "add_provenance (PDict kvs) e = Inr e'"
  shows "\<exists>ps. e' = e @ ps \<and> map_of ps ''checksum'' = None \<and> map_of ps ''compat'' = None \<and>
       (case dict_get kvs ''provenance'' of
          None \<Rightarrow> map_of ps ''author'' = None \<and> map_of ps ''created_utc'' = None
        | Some p \<Rightarrow> \<exists>pkvs. p = PDict pkvs \<and>
            map_of ps ''author'' =
              Some (case dict_get pkvs ''author'' of None \<Rightarrow> PStr ''Unknown'' | Some a \<Rightarrow> a) \<and>
            map_of ps ''created_utc'' =
              Some (case dict_get pkvs ''created_utc'' of None \<Rightarrow> PNone | Some c \<Rightarrow> c))"
proof (cases "dict_get kvs ''provenance''")
  case None
  with add_provenance_shape [OF assms] have "e' = e @ []" by simp
  with None show ?thesis by (intro exI [of _ "[]"]) simp
next
  case (Some p)
  with add_provenance_shape [OF assms] obtain pkvs where p: "p = PDict pkvs" and
    e': "e' = e @ [(''author'', case dict_get pkvs ''author'' of None \<Rightarrow> PStr ''Unknown'' | Some a \<Rightarrow> a),
                   (''created_utc'', case dict_get pkvs ''created_utc'' of None \<Rightarrow> PNone | Some c \<Rightarrow> c)]"
    by auto
  show ?thesis
    by (rule exI [of _ "[(''author'', case dict_get pkvs ''author'' of None \<Rightarrow> PStr ''Unknown'' | Some a \<Rightarrow> a),
                   (''created_utc'', case dict_get pkvs ''created_utc'' of None \<Rightarrow> PNone | Some c \<Rightarrow> c)]"])
       (simp add: e' Some p)
qed

lemma add_compat_keys:
  "add_compat (PDict kvs) e = Inr e' \<Longrightarrow>
     \<exists>xs. e' = e @ xs \<and> map_of xs ''checksum'' = None \<and> map_of xs ''author'' = None \<and>
          map_of xs ''created_utc'' = None \<and> map_of xs ''compat'' = compat_of kvs"
  by (auto simp: add_compat_def and_then_def py_in_def py_item_def compat_of_def
           split: sum.splits if_splits option.splits pyval.splits)

subsection \<open>The groups of \<^verbatim>\<open>_collect_transforms\<close>\<close>

lemma map_fst_append_version [simp]: "map fst (append_version k e g) = map fst g"
  by (induction g) (auto simp: append_version_def)

lemma map_of_append_version:
  "map_of (append_version k e g) j =
     (if j = k then map_option (\<lambda>vs. vs @ [e]) (map_of g k) else map_of g j)"
  by (induction g) (auto simp: append_version_def)

lemma map_fst_ensure_group:
  "map fst (ensure_group k g) = (if k \<in> set (map fst g) then map fst g else map fst g @ [k])"
  by (auto simp: ensure_group_def map_of_eq_None_iff)

lemma map_of_ensure_group:
  "map_of (ensure_group k g) j = (if j = k \<and> map_of g k = None then Some [] else map_of g j)"
  by (auto simp: ensure_group_def map_add_def split: option.splits)

lemma keys_ensure_group: "fst ` set (ensure_group k g) = insert k (fst ` set g)"
  using map_fst_ensure_group [of k g, THEN arg_cong, of set]
  by (simp split: if_splits) blast

lemma keys_append_version: "fst ` set (append_version k e g) = fst ` set g"
  by (metis map_fst_append_version set_map)

lemma apply_event_keys:
  "fst ` set (apply_event (i, x) g) = insert i (fst ` set g)"
  by (simp add: apply_event_def keys_ensure_group keys_append_version split: option.splits)

lemma apply_event_distinct:
  "distinct (map fst g) \<Longrightarrow> distinct (map fst (apply_event (i, x) g))"
  by (auto simp: apply_event_def map_fst_ensure_group split: option.splits)

lemma apply_event_base:
  "base (apply_event (i, x) g) j =
     (if j = i then base g i @ (case x of None \<Rightarrow> [] | Some e \<Rightarrow> [e]) else base g j)"
  by (auto simp: apply_event_def base_def map_of_append_version map_of_ensure_group
           split: option.splits)

lemma fold_events:
  assumes "distinct (map fst g)"
  shows "distinct (map fst (fold apply_event evs g)) \<and>
         fst ` set (fold apply_event evs g) = fst ` set g \<union> fst ` set evs \<and>
         (\<forall>i. base (fold apply_event evs g) i = base g i @ adds evs i)"
  using assms
proof (induction evs arbitrary: g)
  case Nil
  then show ?case by (simp add: adds_def)
next
  case (Cons ev evs)
  obtain i x where ev: "ev = (i, x)" by (cases ev)
  have d: "distinct (map fst (apply_event (i, x) g))"
    using Cons.prems by (rule apply_event_distinct)
  have a: "adds ((i, x) # evs) j = (if j = i then (case x of None \<Rightarrow> [] | Some e \<Rightarrow> [e]) else []) @ adds evs j" for j
    by (simp add: adds_def)
  show ?case
    using Cons.IH [OF d] by (auto simp: ev apply_event_keys apply_event_base a)
qed

lemma fold_concat_map: "fold f (concat (map h xs)) g = fold (\<lambda>x. fold f (h x)) xs g"
  by (induction xs arbitrary: g) simp_all

lemma key_present: "map_of (apply_event (i, x) g) i \<noteq> None"
  using apply_event_keys [of i x g] by (simp add: map_of_eq_None_iff)

lemma ensure_group_present: "map_of g i \<noteq> None \<Longrightarrow> ensure_group i g = g"
  by (simp add: ensure_group_def)

lemma fold_versions:
  "map_of g (c @ ''/'' @ n) \<noteq> None \<Longrightarrow>
     fold (collect_version env fs c n) vs g =
     fold apply_event
       (map (\<lambda>v. (c @ ''/'' @ n,
                   read_transform_meta env fs (child (child (child transforms_dir c) n) v))) vs) g"
proof (induction vs arbitrary: g)
  case Nil
  then show ?case by simp
next
  case (Cons v vs)
  let ?ev = "(c @ ''/'' @ n, read_transform_meta env fs (child (child (child transforms_dir c) n) v))"
  have 1: "collect_version env fs c n v g = apply_event ?ev g"
    using Cons.prems
    by (simp add: collect_version_def apply_event_def ensure_group_present split: option.splits)
  have 2: "map_of (apply_event ?ev g) (c @ ''/'' @ n) \<noteq> None"
    by (rule key_present)
  show ?case
    using Cons.IH [OF 2] by (simp add: 1)
qed

lemma collect_transform_events:
  "collect_transform env fs c n g = fold apply_event (dir_events env fs (c, n)) g"
proof -
  have "map_of (ensure_group (c @ ''/'' @ n) g) (c @ ''/'' @ n) \<noteq> None"
    by (simp add: map_of_ensure_group)
  from fold_versions [OF this] show ?thesis
    by (simp add: collect_transform_def dir_events_def apply_event_def)
qed

lemma collect_category_events:
  "collect_category env fs c g =
     fold apply_event
       (concat (map (\<lambda>n. dir_events env fs (c, n)) (subdirs fs (child transforms_dir c)))) g"
  unfolding collect_category_def fold_concat_map
  by (simp add: collect_transform_events [abs_def])

lemma collect_categories_events:
  "fold (collect_category env fs) cs g =
     fold apply_event (concat (map (dir_events env fs) (transform_dirs fs cs))) g"
proof (induction cs arbitrary: g)
  case Nil
  then show ?case by (simp add: transform_dirs_def)
next
  case (Cons c cs)
  have td: "transform_dirs fs (c # cs) =
      map (\<lambda>n. (c, n)) (subdirs fs (child transforms_dir c)) @ transform_dirs fs cs"
    by (simp add: transform_dirs_def)
  have "fold (collect_category env fs) (c # cs) g =
      fold (collect_category env fs) cs (collect_category env fs c g)"
    by simp
  also have "\<dots> = fold apply_event (concat (map (dir_events env fs) (transform_dirs fs cs)))
      (collect_category env fs c g)"
    by (rule Cons.IH)
  also have "collect_category env fs c g =
      fold apply_event
        (concat (map (dir_events env fs) (map (\<lambda>n. (c, n)) (subdirs fs (child transforms_dir c))))) g"
    by (simp add: collect_category_events comp_def)
  finally show ?case
    unfolding td by simp
qed

lemma concat_map_option:
  "concat (map (\<lambda>x. case f x of None \<Rightarrow> [] | Some y \<Rightarrow> [y]) xs) = List.map_filter f xs"
  by (induction xs) (simp_all add: map_filter_simps split: option.splits)

lemma adds_append: "adds (xs @ ys) i = adds xs i @ adds ys i"
  by (simp add: adds_def)

lemma adds_dir_events:
  "adds (dir_events env fs (c, n)) i =
     (if c @ ''/'' @ n = i then dir_versions env fs (c, n) else [])"
  by (simp add: adds_def dir_events_def dir_versions_def comp_def concat_map_option)

lemma adds_events:
  "adds (concat (map (dir_events env fs) ds)) i =
     concat (map (\<lambda>(c, n). if c @ ''/'' @ n = i then dir_versions env fs (c, n) else []) ds)"
  by (induction ds) (auto simp: adds_append adds_dir_events, simp add: adds_def)

lemma keys_dir_events: "fst ` set (dir_events env fs (c, n)) = {c @ ''/'' @ n}"
  by (auto simp: dir_events_def image_iff)

lemma keys_events:
  "fst ` set (concat (map (dir_events env fs) ds)) = (\<lambda>(c, n). c @ ''/'' @ n) ` set ds"
proof (induction ds)
  case Nil
  then show ?case by simp
next
  case (Cons d ds)
  obtain c n where d: "d = (c, n)" by (cases d)
  have "fst ` set (concat (map (dir_events env fs) (d # ds))) =
      fst ` set (dir_events env fs (c, n)) \<union> fst ` set (concat (map (dir_events env fs) ds))"
    by (simp add: d image_Un)
  then show ?case
    unfolding keys_dir_events Cons.IH by (simp add: d)
qed

lemma collected_groups:
  fixes env fs cs
  defines "G \<equiv> fold (collect_category env fs) cs []"
  shows "distinct (map fst G)"
    and "fst ` set G = (\<lambda>(c, n). c @ ''/'' @ n) ` set (transform_dirs fs cs)"
    and "(k, vs) \<in> set G \<Longrightarrow> vs = group_versions env fs cs k"
proof -
  have evs: "G = fold apply_event (concat (map (dir_events env fs) (transform_dirs fs cs))) []"
    by (simp add: G_def collect_categories_events)
  have f: "distinct (map fst G)"
    "fst ` set G = fst ` set (concat (map (dir_events env fs) (transform_dirs fs cs)))"
    "base G i = adds (concat (map (dir_events env fs) (transform_dirs fs cs))) i" for i
    using fold_events [of "[]" "concat (map (dir_events env fs) (transform_dirs fs cs))"]
    unfolding evs by (simp_all add: base_def)
  show d: "distinct (map fst G)" by (rule f)
  show "fst ` set G = (\<lambda>(c, n). c @ ''/'' @ n) ` set (transform_dirs fs cs)"
    unfolding f(2) by (rule keys_events)
  assume "(k, vs) \<in> set G"
  with d have "map_of G k = Some vs" by simp
  then have "base G k = vs" by (simp add: base_def)
  then show "vs = group_versions env fs cs k"
    unfolding f(3) by (simp add: adds_events group_versions_def)
qed

subsection \<open>Sorting the versions and the groups\<close>

lemma mset_sort_desc [simp]: "mset (sort_desc f xs) = mset xs"
  by (simp add: sort_desc_def)

lemma sorted_sort_desc: "sorted (rev (map f (sort_desc f xs)))"
  by (simp add: sort_desc_def rev_map [symmetric])

lemma short_sorted: "length xs < 2 \<Longrightarrow> sorted xs"
  by (cases xs rule: list.exhaust [case_product list.exhaust]) (auto simp: less_Suc_eq)

lemma str_num_key: "str_key v \<noteq> None \<Longrightarrow> num_key v = None"
  by (auto simp: str_key_def num_key_def split: option.splits pyval.splits)

lemma sort_versions_mset: "sort_versions vs = Inr ws \<Longrightarrow> mset ws = mset vs"
  by (auto simp: sort_versions_def split: if_splits)

lemma sort_versions_sorted:
  assumes "sort_versions vs = Inr ws" and "\<forall>e \<in> set ws. str_key e \<noteq> None"
  shows "sorted (rev (map (the \<circ> str_key) ws))"
proof (cases "length vs < 2")
  case True
  with assms(1) have "ws = vs" by (auto simp: sort_versions_def split: if_splits)
  with True show ?thesis by (simp add: short_sorted)
next
  case False
  from assms(1) have set: "set ws = set vs"
    by (metis sort_versions_mset set_mset_mset)
  with assms(2) have str: "list_all (\<lambda>v. str_key v \<noteq> None) vs"
    by (simp add: list_all_iff)
  with assms(1) False have "ws = sort_desc (\<lambda>v. the (str_key v)) vs"
    by (auto simp: sort_versions_def split: if_splits)
  then show ?thesis
    using sorted_sort_desc [of "\<lambda>v. the (str_key v)" vs] by (simp add: comp_def)
qed

lemma list_all2_witness: "list_all2 P xs ys \<Longrightarrow> y \<in> set ys \<Longrightarrow> \<exists>x \<in> set xs. P x y"
  by (induction rule: list_all2_induct) auto

lemma collect_results_rel:
  "collect_results kvs = Inr ts \<Longrightarrow>
     list_all2 (\<lambda>kv t. t_id t = fst kv \<and> sort_versions (snd kv) = Inr (t_versions t)) kvs ts"
proof (induction kvs arbitrary: ts)
  case Nil
  then show ?case by simp
next
  case (Cons kv kvs)
  obtain k vs where kv: "kv = (k, vs)" by (cases kv)
  from Cons.prems obtain ws ts' where
    "sort_versions vs = Inr ws" "collect_results kvs = Inr ts'"
    "ts = \<lparr>t_id = k, t_versions = ws\<rparr> # ts'"
    by (auto simp: kv group_entry_def and_then_def split: sum.splits)
  with Cons.IH show ?case by (simp add: kv)
qed

lemma index_structure:
  assumes "collect_transforms env fs = Inr ts"
  shows "distinct (map t_id ts) \<and>
         set (map t_id ts) = (\<lambda>(c, n). c @ ''/'' @ n) ` set (transform_dirs fs (categories fs)) \<and>
         (\<forall>t \<in> set ts.
            mset (t_versions t) = mset (group_versions env fs (categories fs) (t_id t)) \<and>
            ((\<forall>e \<in> set (t_versions t). str_key e \<noteq> None) \<longrightarrow>
               sorted (rev (map (the \<circ> str_key) (t_versions t)))))"
proof (cases "exists fs transforms_dir")
  case False
  then have "categories fs = []"
    by (simp add: categories_def iterdir_def exists_def)
  moreover from False assms have "ts = []"
    by (simp add: collect_transforms_def)
  ultimately show ?thesis by (simp add: transform_dirs_def)
next
  case True
  define G where "G = fold (collect_category env fs) (categories fs) []"
  from True assms have res: "collect_results (sort_key fst G) = Inr ts"
    by (auto simp: collect_transforms_def and_then_def categories_def G_def split: sum.splits)
  note g = collected_groups [where env = env and fs = fs and cs = "categories fs", folded G_def]
  note rel = collect_results_rel [OF res]
  have ids: "map t_id ts = map fst (sort_key fst G)"
    using rel by (induction rule: list_all2_induct) simp_all
  have "distinct (map fst (sort_key fst G))"
    using g(1) by (simp add: distinct_map)
  then have 1: "distinct (map t_id ts)" by (simp add: ids)
  have 2: "set (map t_id ts) = (\<lambda>(c, n). c @ ''/'' @ n) ` set (transform_dirs fs (categories fs))"
    unfolding ids using g(2) by simp
  have 3: "mset (t_versions t) = mset (group_versions env fs (categories fs) (t_id t)) \<and>
        ((\<forall>e \<in> set (t_versions t). str_key e \<noteq> None) \<longrightarrow>
           sorted (rev (map (the \<circ> str_key) (t_versions t))))" if "t \<in> set ts" for t
  proof -
    from rel that obtain kv where kv: "kv \<in> set (sort_key fst G)" "t_id t = fst kv"
      "sort_versions (snd kv) = Inr (t_versions t)"
      by (auto dest: list_all2_witness)
    from kv(1) have "(fst kv, snd kv) \<in> set G" by simp
    then have "snd kv = group_versions env fs (categories fs) (fst kv)" by (rule g(3))
    with kv show ?thesis
      by (auto dest: sort_versions_mset intro: sort_versions_sorted)
  qed
  from 1 2 3 show ?thesis by blast
qed

lemmas collect_defs = collect_transforms_def collect_category_def collect_transform_def
  collect_version_def ensure_group_def append_version_def group_entry_def sort_versions_def
  sort_desc_def str_key_def num_key_def

section \<open>The claims\<close>



text \<open>
  C2. The claim is that a failed structure check aborts the run, so that neither later
  stage executes. \<^verbatim>\<open>validate_all\<close> calls the three stages in a row: on a registry
  without the \<^verbatim>\<open>schemas\<close> directory the structure check fails, and the transform check
  still validates the version directory and the schema check still records its warning.
\<close>

theorem stages_run_after_structure_failure:
  "validate_all (demo_env [(doc_without_checksum, PDict kvs_without_checksum)])
     (one_unit_fs ''$'' doc_without_checksum) init_state
   = Inr (False,
          \<lparr>errors = [MissingRequiredDirectory ''schemas'',
                     MissingRequiredField ''payments/normalize_amount'' ''1.0.0'' ''checksum''],
           warnings = [SchemasDirectoryNotFound ''schemas'']\<rparr>)"
  by (simp add: Let_def validator_defs fs_defs transform_defs demo_env_def one_unit_fs_def
        kvs_without_checksum_def)

text \<open>
  C2, as amended. Every stage runs whatever the earlier stages returned. The structure
  check stops at the first missing directory; the transform check and the schema check
  then run as they do on their own: \<^verbatim>\<open>validate_all\<close> returns exactly when both return
  (neither raises), its flag is the conjunction of the three flags, and its errors and
  warnings are those of the structure check followed by those of the transform check
  followed by those of the schema check.
\<close>

theorem stages_all_run:
  "validate_all env fs init_state =
     (case check_structure fs init_state of (b1, st1) \<Rightarrow>
        and_then (check_transforms env fs init_state) (\<lambda>(b2, st2).
        and_then (check_schemas env fs init_state) (\<lambda>(b3, st3).
        Inr (b1 \<and> b2 \<and> b3, st_append st1 (st_append st2 st3)))))"
proof -
  obtain b1 st1 where 1: "check_structure fs init_state = (b1, st1)"
    by (cases "check_structure fs init_state")
  have t: "check_transforms env fs st1 = map_sum id (shift st1) (check_transforms env fs init_state)"
    using check_transforms_shift [of env fs st1 init_state] by simp
  have s: "check_schemas env fs (st_append st1 st2) =
      map_sum id (shift (st_append st1 st2)) (check_schemas env fs init_state)" for st2
    using check_schemas_shift [of env fs "st_append st1 st2" init_state] by simp
  show ?thesis
  proof (cases "check_transforms env fs init_state")
    case (Inl e)
    then show ?thesis
      by (simp add: validate_all_def 1 t and_then_def)
  next
    case (Inr r2)
    obtain b2 st2 where r2: "r2 = (b2, st2)" by (cases r2)
    show ?thesis
      by (cases "check_schemas env fs init_state")
         (auto simp: validate_all_def 1 t Inr r2 and_then_def s st_append_assoc)
  qed
qed

text \<open>
  C3. The claim is that no exception leaves the transform-check stage, whatever the
  metadata file holds. The code checks membership, calls \<^verbatim>\<open>meta.get\<close> and subscripts the
  checksum block and the test entries outside any \<^verbatim>\<open>try\<close>. On the registry with one
  version directory the stage ends with an exception: for an empty metadata file (the
  parser returns \<^verbatim>\<open>None\<close>), for a document that is a sequence, for a checksum block that
  is null, and for a test entry that is a string.
\<close>

theorem malformed_metadata_raises:
  "check_transforms (demo_env [([], PNone)]) (one_unit_fs ''$'' []) init_state = Inl TypeError \<and>
   check_transforms (demo_env [(''[]'', PList [])]) (one_unit_fs ''$'' ''[]'') init_state
     = Inl AttributeError \<and>
   check_transforms
     (demo_env [(meta_doc ''1.0.0'' ''null'' ''[]'', PDict (meta_kvs (PStr ''1.0.0'') PNone (PList [])))])
     (one_unit_fs ''$'' (meta_doc ''1.0.0'' ''null'' ''[]'')) init_state
     = Inl TypeError \<and>
   check_transforms
     (demo_env [(meta_doc ''1.0.0'' ''{}'' ''[tests/input.json]'',
                 PDict (meta_kvs (PStr ''1.0.0'') (PDict []) (PList [PStr ''tests/input.json''])))])
     (one_unit_fs ''$'' (meta_doc ''1.0.0'' ''{}'' ''[tests/input.json]'')) init_state
     = Inl TypeError"
  by (simp add: validator_defs fs_defs transform_defs demo_env_def one_unit_fs_def meta_kvs_def)

text \<open>
  C4. The claim is that a version without a checksum block gets no error on account of
  the checksum. The list of required fields names \<^verbatim>\<open>checksum\<close>, so the version fails with
  the error for the missing field.
\<close>

theorem missing_checksum_is_an_error:
  "validate_transform (demo_env [(doc_without_checksum, PDict kvs_without_checksum)])
     (one_unit_fs ''$'' doc_without_checksum) unit_dir ''payments/normalize_amount'' ''1.0.0''
     init_state
   = Inr (False,
          \<lparr>errors = [MissingRequiredField ''payments/normalize_amount'' ''1.0.0'' ''checksum''],
           warnings = []\<rparr>)"
  by (simp add: validator_defs fs_defs transform_defs demo_env_def one_unit_fs_def
        unit_dir_def kvs_without_checksum_def)

text \<open>
  C4, as amended. For a version whose three required entries are there and whose metadata
  parses to a mapping without a checksum block, a validation that returns has failed, has
  recorded the error for the missing required field \<^verbatim>\<open>checksum\<close>, and has recorded no
  checksum mismatch: the digest is compared only when the block declares one.
\<close>

theorem absent_checksum_block:
  assumes files: "exists fs (pjoin d ''spec.jsonata'')" "exists fs (pjoin d ''tests'')"
                 "is_dir fs (pjoin d ''tests'')"
    and parse: "read_bytes fs (pjoin d ''spec.meta.yaml'') = Inr b"
               "yaml_safe_load env b = Inr (PDict kvs)"
    and absent: "dict_get kvs ''checksum'' = None"
    and ret: "validate_transform env fs d i v st = Inr (ok, st')"
  shows "\<not> ok \<and> MissingRequiredField i v ''checksum'' \<in> set (errors st') \<and>
         filter is_checksum_mismatch (errors st') = filter is_checksum_mismatch (errors st)"
proof -
  let ?K = "\<lambda>e. \<not> is_checksum_mismatch e"
  let ?missing = "map (MissingRequiredField i v) (filter (\<lambda>f. dict_get kvs f = None) required_fields)"
  let ?s1 = "(list_all (\<lambda>f. dict_get kvs f \<noteq> None) required_fields,
              st\<lparr>errors := errors st @ ?missing\<rparr>)"
  have ex: "exists fs (pjoin d ''spec.meta.yaml'')"
    using parse(1) by (auto simp: exists_def read_bytes_def split: option.splits)
  from ret obtain s2 where
    2: "check_identity i v (PDict kvs) ?s1 = Inr s2" and
    3: "check_golden_tests env fs d (pjoin d ''spec.jsonata'') i v (PDict kvs) s2 = Inr (ok, st')"
    unfolding validate_transform_def Let_def
    by (auto simp: files ex parse and_then_def check_fields_dict check_checksum_absent [OF absent]
             split: sum.splits)
  have "delta step_diag ?s1 (ok, st')"
    using check_identity_delta [OF 2] check_golden_tests_delta [OF 3] by (rule delta_trans)
  then have "delta ?K ?s1 (ok, st')"
    by (rule delta_mono [rotated]) (auto simp: step_diag_def is_checksum_mismatch_def split: diag.splits)
  then obtain new where new: "errors st' = errors st @ ?missing @ new"
      "ok = (list_all (\<lambda>f. dict_get kvs f \<noteq> None) required_fields \<and> new = [])" "list_all ?K new"
    unfolding delta_def by auto
  have mem: "MissingRequiredField i v ''checksum'' \<in> set ?missing"
    using absent by (simp add: required_fields_def)
  have "filter is_checksum_mismatch ?missing = []"
    by (simp add: filter_empty_conv is_checksum_mismatch_def)
  moreover have "filter is_checksum_mismatch new = []"
    using new(3) by (simp add: filter_empty_conv list_all_iff)
  ultimately have flt: "filter is_checksum_mismatch (errors st') =
      filter is_checksum_mismatch (errors st)"
    by (simp add: new(1))
  have "\<not> list_all (\<lambda>f. dict_get kvs f \<noteq> None) required_fields"
    using absent by (simp add: required_fields_def)
  then have "\<not> ok" by (simp add: new(2))
  moreover have "MissingRequiredField i v ''checksum'' \<in> set (errors st')"
    using mem by (simp add: new(1))
  ultimately show ?thesis using flt by simp
qed

theorem absent_checksum_block_witness:
  "exists (one_unit_fs ''$'' doc_without_checksum) (pjoin unit_dir ''spec.jsonata'') \<and>
   is_dir (one_unit_fs ''$'' doc_without_checksum) (pjoin unit_dir ''tests'') \<and>
   dict_get kvs_without_checksum ''checksum'' = None \<and>
   MissingRequiredField ''payments/normalize_amount'' ''1.0.0'' ''checksum''
     \<in> set (errors \<lparr>errors = [MissingRequiredField ''payments/normalize_amount'' ''1.0.0'' ''checksum''],
                      warnings = []\<rparr>) \<and>
   filter is_checksum_mismatch
     (errors \<lparr>errors = [MissingRequiredField ''payments/normalize_amount'' ''1.0.0'' ''checksum''],
              warnings = []\<rparr>) = filter is_checksum_mismatch (errors init_state)"
proof -
  let ?env = "demo_env [(doc_without_checksum, PDict kvs_without_checksum)]"
  let ?fs = "one_unit_fs ''$'' doc_without_checksum"
  have 1: "exists ?fs (pjoin unit_dir ''spec.jsonata'')"
    and 2: "exists ?fs (pjoin unit_dir ''tests'')"
    and 3: "is_dir ?fs (pjoin unit_dir ''tests'')"
    and 4: "read_bytes ?fs (pjoin unit_dir ''spec.meta.yaml'') = Inr doc_without_checksum"
    by (simp_all add: fs_defs one_unit_fs_def unit_dir_def)
  have 5: "yaml_safe_load ?env doc_without_checksum = Inr (PDict kvs_without_checksum)"
    by (simp add: demo_env_def)
  have 6: "dict_get kvs_without_checksum ''checksum'' = None"
    by (simp add: dict_get_def kvs_without_checksum_def)
  have 7: "validate_transform ?env ?fs unit_dir ''payments/normalize_amount'' ''1.0.0'' init_state
    = Inr (False,
          \<lparr>errors = [MissingRequiredField ''payments/normalize_amount'' ''1.0.0'' ''checksum''],
           warnings = []\<rparr>)"
    by (simp add: validator_defs fs_defs transform_defs demo_env_def one_unit_fs_def
        unit_dir_def kvs_without_checksum_def)
  from absent_checksum_block [OF 1 2 3 4 5 6 7] 1 3 6 show ?thesis by simp
qed






text \<open>
  C7. The claim is that the author and the creation timestamp are projected only when the
  provenance block provides them. With an empty provenance block the entry has both keys:
  the author \<^verbatim>\<open>"Unknown"\<close> and a null timestamp.
\<close>

theorem empty_provenance_projects_defaults:
  "read_transform_meta (demo_env [(doc_without_checksum, PDict kvs_without_checksum)])
     (one_unit_fs ''$'' doc_without_checksum) unit_dir
   = Some [(''version'', PStr ''1.0.0''),
           (''from_schema'', PStr ''iglu:acme/raw/jsonschema/1-0-0''),
           (''to_schema'', PStr ''iglu:acme/order/jsonschema/1-0-0''),
           (''status'', PStr ''draft''),
           (''path'', PStr ''transforms/payments/normalize_amount/1.0.0/''),
           (''author'', PStr ''Unknown''),
           (''created_utc'', PNone)]"
  by (simp add: index_defs fs_defs demo_env_def one_unit_fs_def unit_dir_def
        kvs_without_checksum_def)

text \<open>
  C7, as amended. An entry that is built comes from a metadata document that is a mapping.
  It has the key \<^verbatim>\<open>checksum\<close> exactly when the mapping has it, with the same value. It
  has both \<^verbatim>\<open>author\<close> and \<^verbatim>\<open>created_utc\<close> exactly when the mapping has a provenance
  block, which then is a mapping: the author is the block's, or \<^verbatim>\<open>"Unknown"\<close> when the
  block has none, and the timestamp is the block's, or null. It has \<^verbatim>\<open>compat\<close> exactly
  when the mapping has a compat block that is a mapping with a \<^verbatim>\<open>from_schema_range\<close>.
\<close>

theorem index_optional_keys:
  assumes "read_transform_meta env fs d = Some e"
  shows "\<exists>b kvs. read_bytes fs (pjoin d ''spec.meta.yaml'') = Inr b \<and>
           yaml_safe_load env b = Inr (PDict kvs) \<and>
           map_of e ''checksum'' = dict_get kvs ''checksum'' \<and>
           (case dict_get kvs ''provenance'' of
              None \<Rightarrow> map_of e ''author'' = None \<and> map_of e ''created_utc'' = None
            | Some p \<Rightarrow> \<exists>pkvs. p = PDict pkvs \<and>
                map_of e ''author'' =
                  Some (case dict_get pkvs ''author'' of None \<Rightarrow> PStr ''Unknown'' | Some a \<Rightarrow> a) \<and>
                map_of e ''created_utc'' =
                  Some (case dict_get pkvs ''created_utc'' of None \<Rightarrow> PNone | Some c \<Rightarrow> c)) \<and>
           map_of e ''compat'' = compat_of kvs"
proof -
  from assms obtain b meta e1 e2 e3 where
    rb: "read_bytes fs (pjoin d ''spec.meta.yaml'') = Inr b" and
    yl: "yaml_safe_load env b = Inr meta" and
    1: "base_entry d meta = Inr e1" and
    2: "add_checksum meta e1 = Inr e2" and
    3: "add_provenance meta e2 = Inr e3" and
    4: "add_compat meta e3 = Inr e"
    by (auto simp: read_transform_meta_def Let_def and_then_def split: if_splits sum.splits)
  from base_entry_keys [OF 1] obtain kvs a1 b1 c1 s1 where meta: "meta = PDict kvs"
    and k1: "e1 = [(''version'', a1), (''from_schema'', b1), (''to_schema'', c1), (''status'', s1),
                   (''path'', PStr (d @ ''/''))]"
    by auto
  have base: "map_of e1 ''checksum'' = None" "map_of e1 ''author'' = None"
      "map_of e1 ''created_utc'' = None" "map_of e1 ''compat'' = None"
    by (simp_all add: k1)
  from add_checksum_keys [OF 2 [unfolded meta]] obtain cs where
    cs: "e2 = e1 @ cs" "map_of cs ''checksum'' = dict_get kvs ''checksum''"
        "map_of cs ''author'' = None" "map_of cs ''created_utc'' = None" "map_of cs ''compat'' = None"
    by blast
  from add_provenance_keys [OF 3 [unfolded meta]] obtain ps where
    ps: "e3 = e2 @ ps" "map_of ps ''checksum'' = None" "map_of ps ''compat'' = None"
      "case dict_get kvs ''provenance'' of
          None \<Rightarrow> map_of ps ''author'' = None \<and> map_of ps ''created_utc'' = None
        | Some p \<Rightarrow> \<exists>pkvs. p = PDict pkvs \<and>
            map_of ps ''author'' =
              Some (case dict_get pkvs ''author'' of None \<Rightarrow> PStr ''Unknown'' | Some a \<Rightarrow> a) \<and>
            map_of ps ''created_utc'' =
              Some (case dict_get pkvs ''created_utc'' of None \<Rightarrow> PNone | Some c \<Rightarrow> c)"
    by blast
  from add_compat_keys [OF 4 [unfolded meta]] obtain xs where
    xs: "e = e3 @ xs" "map_of xs ''checksum'' = None" "map_of xs ''author'' = None"
        "map_of xs ''created_utc'' = None" "map_of xs ''compat'' = compat_of kvs"
    by blast
  have e: "e = e1 @ cs @ ps @ xs"
    by (simp add: xs(1) ps(1) cs(1))
  have "map_of e ''checksum'' = dict_get kvs ''checksum''"
    unfolding e map_of_app by (simp add: base cs ps xs split: option.splits)
  moreover have "case dict_get kvs ''provenance'' of
              None \<Rightarrow> map_of e ''author'' = None \<and> map_of e ''created_utc'' = None
            | Some p \<Rightarrow> \<exists>pkvs. p = PDict pkvs \<and>
                map_of e ''author'' =
                  Some (case dict_get pkvs ''author'' of None \<Rightarrow> PStr ''Unknown'' | Some a \<Rightarrow> a) \<and>
                map_of e ''created_utc'' =
                  Some (case dict_get pkvs ''created_utc'' of None \<Rightarrow> PNone | Some c \<Rightarrow> c)"
    using ps(4) unfolding e map_of_app
    by (auto simp: base cs xs split: option.splits)
  moreover have "map_of e ''compat'' = compat_of kvs"
    unfolding e map_of_app by (simp add: base cs ps xs split: option.splits)
  ultimately show ?thesis using rb yl meta by blast
qed

theorem index_optional_keys_witness:
  "read_transform_meta
     (demo_env [(meta_doc ''1.0.0'' ''{}'' ''[]'', PDict (meta_kvs (PStr ''1.0.0'') (PDict []) (PList [])))])
     (one_unit_fs ''$'' (meta_doc ''1.0.0'' ''{}'' ''[]'')) unit_dir
   = Some [(''version'', PStr ''1.0.0''),
           (''from_schema'', PStr ''iglu:acme/raw/jsonschema/1-0-0''),
           (''to_schema'', PStr ''iglu:acme/order/jsonschema/1-0-0''),
           (''status'', PStr ''published''),
           (''path'', PStr ''transforms/payments/normalize_amount/1.0.0/''),
           (''checksum'', PDict []),
           (''author'', PStr ''ben''),
           (''created_utc'', PStr ''2024-01-01 UTC''),
           (''compat'', PDict [(PStr ''from_schema_range'', PStr ''1-0-x'')])] \<and>
   compat_of (meta_kvs (PStr ''1.0.0'') (PDict []) (PList []))
     = Some (PDict [(PStr ''from_schema_range'', PStr ''1-0-x'')])"
proof -
  let ?env = "demo_env [(meta_doc ''1.0.0'' ''{}'' ''[]'', PDict (meta_kvs (PStr ''1.0.0'') (PDict []) (PList [])))]"
  let ?fs = "one_unit_fs ''$'' (meta_doc ''1.0.0'' ''{}'' ''[]'')"
  let ?e = "[(''version'', PStr ''1.0.0''),
           (''from_schema'', PStr ''iglu:acme/raw/jsonschema/1-0-0''),
           (''to_schema'', PStr ''iglu:acme/order/jsonschema/1-0-0''),
           (''status'', PStr ''published''),
           (''path'', PStr ''transforms/payments/normalize_amount/1.0.0/''),
           (''checksum'', PDict []),
           (''author'', PStr ''ben''),
           (''created_utc'', PStr ''2024-01-01 UTC''),
           (''compat'', PDict [(PStr ''from_schema_range'', PStr ''1-0-x'')])]"
  have run: "read_transform_meta ?env ?fs unit_dir = Some ?e"
    by (simp add: index_defs fs_defs demo_env_def one_unit_fs_def unit_dir_def meta_kvs_def)
  have yl: "read_bytes ?fs (pjoin unit_dir ''spec.meta.yaml'') = Inr (meta_doc ''1.0.0'' ''{}'' ''[]'')"
    "yaml_safe_load ?env (meta_doc ''1.0.0'' ''{}'' ''[]'')
       = Inr (PDict (meta_kvs (PStr ''1.0.0'') (PDict []) (PList [])))"
    by (simp_all add: fs_defs demo_env_def one_unit_fs_def unit_dir_def)
  from index_optional_keys [OF run] yl
  have "map_of ?e ''compat'' = compat_of (meta_kvs (PStr ''1.0.0'') (PDict []) (PList []))"
    by auto
  with run show ?thesis by simp
qed

text \<open>
  C8. When the traversal of \<^verbatim>\<open>check_transforms\<close> returns, the errors it has recorded are
  those expected of the pairs it met: a pair met before contributes its duplicate error
  and nothing else, so no per-unit check runs for it. The count of validated transforms
  is the number of distinct pairs that validate, so a repeated pair is counted at most
  once. For a pair met exactly twice, exactly one duplicate error is recorded.
\<close>

theorem duplicate_pairs:
  assumes "check_transforms_loop env fs st = Inr s"
  shows "errors (state s) = errors st @ expected_errors env fs {} (traversal fs) \<and>
         transform_count s = card {k \<in> set (traversal fs). unit_valid env fs k} \<and>
         (count_list (traversal fs) (i, v) = 2 \<longrightarrow>
            count_list (errors (state s)) (DuplicateTransform i v) =
              count_list (errors st) (DuplicateTransform i v) + 1)"
proof -
  from assms obtain entries where
    it: "iterdir fs transforms_dir = Inr entries" and
    run: "for_each (\<lambda>(c, n, v). version_step env fs c n v)
            (units fs (filter (visible_dir fs transforms_dir) entries))
            \<lparr>transform_ids = {}, transform_count = 0, success = True, state = st\<rparr> = Inr s"
    by (auto simp: check_transforms_loop_def and_then_def category_loop_flat split: sum.splits)
  have tr: "traversal fs = keys (units fs (filter (visible_dir fs transforms_dir) entries))"
    by (simp add: traversal_def it keys_def)
  from unit_loop_effect [OF run] have
    e: "errors (state s) = errors st @ expected_errors env fs {} (traversal fs)" and
    c: "transform_count s = card {k \<in> set (traversal fs). unit_valid env fs k}"
    by (simp_all add: tr)
  show ?thesis
    by (simp add: e c count_duplicates)
qed

theorem duplicate_pairs_witness:
  "check_transforms_loop (demo_env [(valid_doc, PDict valid_kvs)]) listed_twice_fs init_state
   = Inr \<lparr>transform_ids = {(''payments/normalize_amount'', ''1.0.0'')},
          transform_count = 1, success = False,
          state = \<lparr>errors = [DuplicateTransform ''payments/normalize_amount'' ''1.0.0''],
                    warnings = []\<rparr>\<rparr> \<and>
   traversal listed_twice_fs =
     [(''payments/normalize_amount'', ''1.0.0''), (''payments/normalize_amount'', ''1.0.0'')] \<and>
   card {k \<in> set (traversal listed_twice_fs).
           unit_valid (demo_env [(valid_doc, PDict valid_kvs)]) listed_twice_fs k} = 1"
proof -
  let ?env = "demo_env [(valid_doc, PDict valid_kvs)]"
  let ?s = "\<lparr>transform_ids = {(''payments/normalize_amount'', ''1.0.0'')},
          transform_count = 1, success = False,
          state = \<lparr>errors = [DuplicateTransform ''payments/normalize_amount'' ''1.0.0''],
                    warnings = []\<rparr>\<rparr>"
  have run: "check_transforms_loop ?env listed_twice_fs init_state = Inr ?s"
    by (simp add: Let_def validator_defs fs_defs transform_defs demo_env_def one_unit_fs_def
          listed_twice_fs_def valid_kvs_def meta_kvs_def)
  have tr: "traversal listed_twice_fs =
     [(''payments/normalize_amount'', ''1.0.0''), (''payments/normalize_amount'', ''1.0.0'')]"
    by (simp add: traversal_def units_def fs_defs one_unit_fs_def listed_twice_fs_def)
  from duplicate_pairs [OF run, of "''payments/normalize_amount''" "''1.0.0''"]
  have "card {k \<in> set (traversal listed_twice_fs). unit_valid ?env listed_twice_fs k} = 1"
    by simp
  with run tr show ?thesis by simp
qed

text \<open>
  C10. When the index is built, a transform directory whose version directories all fail
  to yield metadata still has its entry, with an empty list of versions. The hypothesis
  speaks of every transform directory with the same id; directories of different names
  have different ids as long as no name contains a slash.
\<close>

theorem unreadable_versions_keep_entry:
  assumes "collect_transforms env fs = Inr ts"
    and "(c, n) \<in> set (transform_dirs fs (categories fs))"
    and "\<forall>(c', n') \<in> set (transform_dirs fs (categories fs)).
           c' @ ''/'' @ n' = c @ ''/'' @ n \<longrightarrow>
           (\<forall>v \<in> set (subdirs fs (child (child transforms_dir c') n')).
              read_transform_meta env fs (child (child (child transforms_dir c') n') v) = None)"
  shows "\<exists>t \<in> set ts. t_id t = c @ ''/'' @ n \<and> t_versions t = []"
proof -
  note s = index_structure [OF assms(1)]
  from assms(2) s have "c @ ''/'' @ n \<in> set (map t_id ts)" by force
  then obtain t where t: "t \<in> set ts" "t_id t = c @ ''/'' @ n" by auto
  have "dir_versions env fs (c', n') = []"
    if "(c', n') \<in> set (transform_dirs fs (categories fs))" "c' @ ''/'' @ n' = c @ ''/'' @ n" for c' n'
    using assms(3) that
    by (auto simp: dir_versions_def List.map_filter_def filter_empty_conv)
  then have "group_versions env fs (categories fs) (c @ ''/'' @ n) = []"
    by (auto simp: group_versions_def)
  with s t have "t_versions t = []" by auto
  with t show ?thesis by blast
qed

theorem unreadable_versions_keep_entry_witness:
  "collect_transforms (demo_env []) no_metadata_fs =
     Inr [\<lparr>t_id = ''payments/normalize_amount'', t_versions = []\<rparr>] \<and>
   (''payments'', ''normalize_amount'') \<in> set (transform_dirs no_metadata_fs (categories no_metadata_fs)) \<and>
   read_transform_meta (demo_env []) no_metadata_fs ''transforms/payments/normalize_amount/1.0.0'' = None"
proof -
  have run: "collect_transforms (demo_env []) no_metadata_fs =
     Inr [\<lparr>t_id = ''payments/normalize_amount'', t_versions = []\<rparr>]"
    by (simp add: collect_defs index_defs fs_defs no_metadata_fs_def demo_env_def)
  have dirs: "transform_dirs no_metadata_fs (categories no_metadata_fs) = [(''payments'', ''normalize_amount'')]"
    by (simp add: transform_dirs_def categories_def fs_defs no_metadata_fs_def)
  have none: "read_transform_meta (demo_env []) no_metadata_fs
      ''transforms/payments/normalize_amount/1.0.0'' = None"
    by (simp add: index_defs fs_defs no_metadata_fs_def)
  have sub: "subdirs no_metadata_fs ''transforms/payments/normalize_amount'' = [''1.0.0'']"
    by (simp add: fs_defs no_metadata_fs_def)
  have "\<exists>t \<in> set [\<lparr>t_id = ''payments/normalize_amount'', t_versions = []\<rparr>].
      t_id t = ''payments'' @ ''/'' @ ''normalize_amount'' \<and> t_versions t = []"
    by (rule unreadable_versions_keep_entry [OF run])
       (simp_all add: dirs sub none child_def transforms_dir_def)
  with run dirs none show ?thesis by simp
qed

end
